theory Spec2Isabelle
  imports Main "HOL-Library.Word"
begin

section \<open>Bytes, C strings and the C library\<close>

text \<open>
  The operator shell of \<^verbatim>\<open>src/supertel/task2/src/shell.c\<close> is embedded function by
  function. A byte (\<^verbatim>\<open>char\<close>, \<^verbatim>\<open>uint8_t\<close>) is a \<^typ>\<open>char\<close>, a buffer is a list of
  bytes, and a pointer to a NUL-terminated string is the list of the bytes in front of
  the terminator: reading at the end of the list reads the terminator.
\<close>

text \<open>The byte a \<^verbatim>\<open>const char *\<close> points at.\<close>

fun chd :: "string \<Rightarrow> char" where
  "chd [] = CHR 0x00"
| "chd (c # cs) = c"

text \<open>
  \<^verbatim>\<open>strncmp(a, b, n) == 0\<close>: at most \<open>n\<close> bytes are compared, and the comparison
  stops behind a terminator that both strings have at the same place.
\<close>

fun strncmp_is_0 :: "string \<Rightarrow> string \<Rightarrow> nat \<Rightarrow> bool" where
  "strncmp_is_0 a b 0 = True"
| "strncmp_is_0 a b (Suc n) =
     (if chd a \<noteq> chd b then False
      else if chd a = CHR 0x00 then True
      else strncmp_is_0 (tl a) (tl b) n)"

text \<open>The string a buffer holds when it is read as a C string, and its \<^verbatim>\<open>strlen\<close>.\<close>

definition c_str :: "string \<Rightarrow> string" where
  "c_str buf = takeWhile (\<lambda>c. c \<noteq> CHR 0x00) buf"

definition strlen :: "string \<Rightarrow> nat" where
  "strlen s = length (c_str s)"

definition isdigit :: "char \<Rightarrow> bool" where
  "isdigit c = (48 \<le> (of_char c :: nat) \<and> (of_char c :: nat) \<le> 57)"

definition isspace :: "char \<Rightarrow> bool" where
  "isspace c = (c = CHR '' '' \<or> (9 \<le> (of_char c :: nat) \<and> (of_char c :: nat) \<le> 13))"

text \<open>\<^verbatim>\<open>sprintf("%u", n)\<close>: the decimal digits of \<open>n\<close>, most significant first.\<close>

definition digit_char :: "nat \<Rightarrow> char" where
  "digit_char d = char_of (48 + d)"

fun dec_of_nat :: "nat \<Rightarrow> string" where
  "dec_of_nat n =
     (if n < 10 then [digit_char n]
      else dec_of_nat (n div 10) @ [digit_char (n mod 10)])"

declare dec_of_nat.simps [simp del]

definition digits_value :: "string \<Rightarrow> nat" where
  "digits_value ds = foldl (\<lambda>v c. 10 * v + (of_char c - 48)) 0 ds"

text \<open>
  \<^verbatim>\<open>atoi\<close>, stored in an \<^verbatim>\<open>unsigned int\<close>. Its one call is made on a byte that
  \<^verbatim>\<open>isdigit\<close> has accepted, so neither leading blanks nor a sign are read; the digits
  are read up to the first byte that is not one. \<^verbatim>\<open>atoi\<close> is \<^verbatim>\<open>strtol\<close> cast to
  \<^verbatim>\<open>int\<close>: with a 64-bit \<^verbatim>\<open>long\<close> the value saturates at \<^verbatim>\<open>LONG_MAX\<close>, and the
  cast and the store keep its low 32 bits.
\<close>

definition atoi :: "string \<Rightarrow> 32 word" where
  "atoi s = word_of_int (min (int (digits_value (takeWhile isdigit s))) 9223372036854775807)"

text \<open>
  \<^verbatim>\<open>strtoul(s, &endptr, 10)\<close> with a 64-bit \<^verbatim>\<open>unsigned long\<close>: blanks, an optional
  sign, then digits; the value saturates at \<^verbatim>\<open>ULONG_MAX\<close> and is negated modulo
  \<open>2^64\<close> behind a minus sign. Without a digit nothing is consumed. The result is the
  value and the string \<^verbatim>\<open>endptr\<close> points at.
\<close>

definition strtoul :: "string \<Rightarrow> int \<times> string" where
  "strtoul s =
     (let s1 = dropWhile isspace s;
          neg = (chd s1 = CHR ''-'');
          s2 = (if chd s1 = CHR ''-'' \<or> chd s1 = CHR ''+'' then tl s1 else s1);
          ds = takeWhile isdigit s2;
          v = int (digits_value ds)
      in if ds = [] then (0, s)
         else (if 18446744073709551616 \<le> v then 18446744073709551615
               else if neg then (18446744073709551616 - v) mod 18446744073709551616
               else v,
               dropWhile isdigit s2))"

text \<open>
  \<^verbatim>\<open>strtok(s, " ")\<close> on the string that is left: the token, and the string behind the
  delimiter that ended it; \<open>None\<close> when only delimiters are left.
\<close>

definition strtok :: "string \<Rightarrow> (string \<times> string) option" where
  "strtok s =
     (let s1 = dropWhile (\<lambda>c. c = CHR '' '') s
      in if s1 = [] then None
         else Some (takeWhile (\<lambda>c. c \<noteq> CHR '' '') s1,
                    drop 1 (dropWhile (\<lambda>c. c \<noteq> CHR '' '') s1)))"

text \<open>
  \<^verbatim>\<open>strtok\<close> also writes: the delimiter that ends the token is overwritten with a
  terminator. \<open>strtok_end s\<close> is the offset of that delimiter in \<open>s\<close>; it is
  \<open>None\<close> when the token ends where the string ends or when there is no token, and
  nothing is written then.
\<close>

definition strtok_end :: "string \<Rightarrow> nat option" where
  "strtok_end s =
     (let s1 = dropWhile (\<lambda>c. c = CHR '' '') s;
          token = takeWhile (\<lambda>c. c \<noteq> CHR '' '') s1
      in if length token < length s1 then Some (length s - length s1 + length token)
         else None)"

text \<open>\<^verbatim>\<open>memcpy(b + p, src, length src)\<close> into a buffer that has the room.\<close>

definition memcpy :: "string \<Rightarrow> nat \<Rightarrow> string \<Rightarrow> string" where
  "memcpy b p src = take p b @ src @ drop (p + length src) b"

text \<open>
  \<^verbatim>\<open>printf("%.*s", len, s)\<close> where \<open>len\<close> is a \<^verbatim>\<open>uint32_t\<close> read as the \<^verbatim>\<open>int\<close>
  precision and \<open>s\<close> are the bytes that are there to read: at most \<open>len\<close> bytes, and
  none behind a NUL. A length from \<open>2^31\<close> on is a negative precision, which is taken as
  if it were left out: the bytes up to the first NUL, and \<open>None\<close> when there is none
  among the bytes that are there.
\<close>

definition printf_precision_s :: "int \<Rightarrow> string \<Rightarrow> string option" where
  "printf_precision_s len s =
     (if len < 2147483648 then Some (c_str (take (nat len) s))
      else if CHR 0x00 \<in> set s then Some (c_str s)
      else None)"

section \<open>The endpoint-name parser\<close>

text \<open>
  \<^verbatim>\<open>driver_description_t\<close>: \<open>driver_name\<close> is the string the pointer points at (the
  rest of the file name), of which the first \<open>driver_name_len\<close> bytes are the name.
\<close>

record driver_description_t =
  driver_name :: string
  driver_name_len :: nat
  slot_number :: "32 word"

definition name_slice :: "driver_description_t \<Rightarrow> string" where
  "name_slice dd = take (driver_name_len dd) (driver_name dd)"

text \<open>
  The result of \<^verbatim>\<open>parse_unix_socket_name_\<close>: \<^verbatim>\<open>false\<close>, or \<^verbatim>\<open>true\<close> with the
  description filled in. On the empty name \<^verbatim>\<open>back\<close> wraps around to \<^verbatim>\<open>SIZE_MAX\<close>
  and the first loop reads outside the string.
\<close>

datatype parsed = Undefined_read | Rejected | Parsed driver_description_t

text \<open>\<^verbatim>\<open>while (back > 0 && name[back] != '/') -- back;\<close>\<close>

fun find_back :: "string \<Rightarrow> nat \<Rightarrow> nat" where
  "find_back name 0 = 0"
| "find_back name (Suc b) =
     (if name ! Suc b \<noteq> CHR ''/'' then find_back name b else Suc b)"

text \<open>\<^verbatim>\<open>for (...; name_end < name_len && name[name_end] != '.'; ++name_end);\<close>\<close>

function scan_name_end :: "string \<Rightarrow> nat \<Rightarrow> nat" where
  "scan_name_end name e =
     (if e < length name \<and> name ! e \<noteq> CHR ''.'' then scan_name_end name (Suc e) else e)"
  by pat_completeness auto
termination
  by (relation "measure (\<lambda>(name, e). length name - e)") auto

declare scan_name_end.simps [simp del]

text \<open>
  \<^verbatim>\<open>for (...; slot_end < name_len && name[slot_end] != '.' && isdigit(name[slot_end]); ++slot_end);\<close>
\<close>

function scan_slot_end :: "string \<Rightarrow> nat \<Rightarrow> nat" where
  "scan_slot_end name e =
     (if e < length name \<and> name ! e \<noteq> CHR ''.'' \<and> isdigit (name ! e)
      then scan_slot_end name (Suc e) else e)"
  by pat_completeness auto
termination
  by (relation "measure (\<lambda>(name, e). length name - e)") auto

declare scan_slot_end.simps [simp del]

text \<open>
  \<^verbatim>\<open>parse_unix_socket_name_(name, name_len, dd)\<close>, with \<open>name_len = length name\<close> as
  at each of its calls. \<^verbatim>\<open>SUFFIX\<close> is a constant of \<^verbatim>\<open>common.h\<close>, which is not among
  the sources: it is the argument \<open>sfx\<close>, and \<^verbatim>\<open>SUFFIX_LEN\<close> is its length.
\<close>

definition parse_unix_socket_name' :: "string \<Rightarrow> string \<Rightarrow> parsed" where
  "parse_unix_socket_name' sfx name =
     (if name = [] then Undefined_read else
      let name_len = length name;
          back = find_back name (name_len - 1);
          name_start = back;
          name_end = scan_name_end name back
      in if name_end = name_start \<or> name_end = name_len then Rejected else
      let slot_start = name_end + 1;
          slot_end = scan_slot_end name slot_start
      in if slot_end = slot_start \<or> slot_end = name_len \<or> name ! slot_end \<noteq> CHR ''.''
         then Rejected
         else if name_len - slot_end \<noteq> length sfx + 1 then Rejected
         else if \<not> strncmp_is_0 (drop (slot_end + 1) name) sfx (length sfx)
         then Rejected
         else Parsed \<lparr>driver_name = drop name_start name,
                      driver_name_len = name_end - name_start,
                      slot_number = atoi (drop slot_start name)\<rparr>)"

text \<open>
  Modelled from the spec: the endpoint filename grammar
  \<^verbatim>\<open><driver-name>.<slot>.<SUFFIX>\<close>, which the drivers write and no source file of the
  shell does. The slot is printed in decimal, as \<^verbatim>\<open>DRIVER_SLOT_ID\<close> prints it.
\<close>

definition format_unix_socket_name :: "string \<Rightarrow> string \<Rightarrow> 32 word \<Rightarrow> string" where
  "format_unix_socket_name sfx name slot =
     name @ ''.'' @ dec_of_nat (unat slot) @ ''.'' @ sfx"

section \<open>Data of the shell\<close>

text \<open>
  What the headers that are not among the sources fix (\<^verbatim>\<open>common.h\<close>,
  \<^verbatim>\<open>protocol.h\<close>, \<^verbatim>\<open>hash-functions.h\<close>) is an argument of the model: the Pearson hash,
  the endpoint suffix, the three signature bytes and the byte order of the host.
\<close>

type_synonym hash_t = "8 word"

datatype byte_order = Little_endian | Big_endian

record externs =
  hash_pearson :: "string \<Rightarrow> hash_t"
  SUFFIX :: string
  PR_DRV_COMMAND :: char
  PR_DRV_INFO :: char
  PR_DRV_RESPONSE :: char
  host_order :: byte_order

text \<open>
  Modelled from the spec: the bounds of a command descriptor (\<open>name[32]\<close>,
  \<open>descr[128]\<close>) and the sizes of the packed wire structures of \<^verbatim>\<open>protocol.h\<close>:
  \<open>signature : u8\<close>; \<open>signature : u8 | commands_number : u16\<close>;
  \<open>name[32], descr[128], arity : u8\<close>; \<open>signature : u8 | length : u32\<close>;
  \<open>signature : u8 | cmd_idx : u16 | argc : u8\<close>; \<open>len : u8\<close>.
\<close>

definition MAX_COMMAND_NAME_LEN :: nat where
  "MAX_COMMAND_NAME_LEN = 32"

definition MAX_COMMAND_DESCRIPTION_LEN :: nat where
  "MAX_COMMAND_DESCRIPTION_LEN = 128"

definition sizeof_pr_signature_t :: nat where
  "sizeof_pr_signature_t = 1"

definition sizeof_pr_driver_info_t :: nat where
  "sizeof_pr_driver_info_t = 3"

definition sizeof_pr_driver_command_info_t :: nat where
  "sizeof_pr_driver_command_info_t =
     MAX_COMMAND_NAME_LEN + MAX_COMMAND_DESCRIPTION_LEN + 1"

definition sizeof_pr_driver_response_t :: nat where
  "sizeof_pr_driver_response_t = 5"

definition sizeof_pr_driver_command_t :: nat where
  "sizeof_pr_driver_command_t = 4"

definition sizeof_pr_driver_command_argument_t :: nat where
  "sizeof_pr_driver_command_argument_t = 1"

text \<open>A \<^verbatim>\<open>uint16_t\<close> and a \<^verbatim>\<open>uint32_t\<close> in the memory of the host.\<close>

definition u16_bytes :: "byte_order \<Rightarrow> nat \<Rightarrow> string" where
  "u16_bytes bo n =
     (case bo of
        Little_endian \<Rightarrow> [char_of n, char_of (n div 256)]
      | Big_endian \<Rightarrow> [char_of (n div 256), char_of n])"

definition u16_value :: "byte_order \<Rightarrow> string \<Rightarrow> nat" where
  "u16_value bo bs =
     (case bo of
        Little_endian \<Rightarrow> of_char (bs ! 0) + 256 * of_char (bs ! 1)
      | Big_endian \<Rightarrow> of_char (bs ! 1) + 256 * of_char (bs ! 0))"

definition u32_value :: "byte_order \<Rightarrow> string \<Rightarrow> int" where
  "u32_value bo bs =
     (case bo of
        Little_endian \<Rightarrow> of_char (bs ! 0) + 256 * (of_char (bs ! 1)
            + 256 * (of_char (bs ! 2) + 256 * of_char (bs ! 3)))
      | Big_endian \<Rightarrow> of_char (bs ! 3) + 256 * (of_char (bs ! 2)
            + 256 * (of_char (bs ! 1) + 256 * of_char (bs ! 0))))"

text \<open>
  The structures of \<^verbatim>\<open>shell.c\<close>. A \<^verbatim>\<open>uint8_t\<close> field is a \<^typ>\<open>char\<close>. The name of a
  command is the C string of \<^verbatim>\<open>name[MAX_COMMAND_NAME_LEN + 1]\<close>.
\<close>

record arg_from_input_t =
  afi_arg :: string
  afi_len :: char

record shell_driver_command_t =
  sdc_name :: string
  sdc_arity :: char
  sdc_descr :: string

text \<open>
  A \<^verbatim>\<open>buffer_t\<close>: \<^verbatim>\<open>user_size\<close> is the length of \<open>b_data\<close>. A client holds its two
  buffers and the \<^verbatim>\<open>eof\<close> flag. A driver record owns its name, so \<^verbatim>\<open>name_len\<close> is
  the length of \<open>sd_name\<close>, and embeds its client (\<^verbatim>\<open>usc->priv\<close> points back at the
  record).
\<close>

record buffer_t =
  b_data :: string
  b_offset :: nat

record usc_t =
  read_task_b :: buffer_t
  write_task_b :: buffer_t
  eof :: bool

record shell_driver_t =
  sd_name :: string
  sd_slot :: "32 word"
  sd_commands :: "shell_driver_command_t list"
  sd_usc :: usc_t

text \<open>
  The client library (\<^verbatim>\<open>unix-socket-client.c\<close>) is not among the sources. A call of it is
  recorded in the shell, in order, with the record whose client it is made on and with
  its arguments; the continuation handed to \<^verbatim>\<open>unix_socket_client_recv\<close> is named.
\<close>

datatype reader_fn = Reader_signature | Reader_info | Reader_response

datatype usc_call =
    Usc_init
  | Usc_connect string
  | Usc_send string
  | Usc_recv nat reader_fn
  | Usc_reconnect

type_synonym usc_ref = "string \<times> 32 word"

text \<open>
  \<^verbatim>\<open>shell_t\<close>. The registry \<open>clients\<close> is the AVL tree keyed by the hash, as the finite
  map it implements (the containers are not among the sources): a node holds the list
  of the records of its bucket. \<open>sh_output\<close> is what has been written to
  \<^verbatim>\<open>sh->output\<close>, \<open>iosvc_stopped\<close> whether \<^verbatim>\<open>io_service_stop\<close> has been called.
\<close>

record shell_t =
  clients :: "hash_t \<rightharpoonup> shell_driver_t list"
  input_buffer :: buffer_t
  sh_output :: string
  running :: bool
  iosvc_stopped :: bool
  calls :: "(usc_ref \<times> usc_call) list"

datatype fatal = Abort | Undefined_behaviour

definition PROMPT :: string where
  "PROMPT = ''> ''"

definition NEW_LINE :: string where
  "NEW_LINE = [CHR 0x0A]"

definition INVALID_MSG :: string where
  "INVALID_MSG = ''Invalid command'' @ [CHR 0x0A]"

definition HELP_MSG :: string where
  "HELP_MSG = ''Commands:'' @ [CHR 0x0A]
     @ ''list --- list all drivers'' @ [CHR 0x0A]
     @ ''help --- print this message'' @ [CHR 0x0A]
     @ ''cmd drv slot drv_cmd ... --- send command drv_cmd to driver drv at slot with arguments''
     @ [CHR 0x0A]"

definition fprintf :: "shell_t \<Rightarrow> string \<Rightarrow> shell_t" where
  "fprintf sh s = sh\<lparr>sh_output := sh_output sh @ s\<rparr>"

text \<open>\<^verbatim>\<open>DRIVER_SLOT_ID\<close>: \<^verbatim>\<open>sprintf(ID, "%.*s%u", name_len, name, slot)\<close>.\<close>

definition DRIVER_SLOT_ID :: "string \<Rightarrow> nat \<Rightarrow> 32 word \<Rightarrow> string" where
  "DRIVER_SLOT_ID name name_len slot = take name_len (c_str name) @ dec_of_nat (unat slot)"

definition usc_ref_of :: "shell_driver_t \<Rightarrow> usc_ref" where
  "usc_ref_of sd = (sd_name sd, sd_slot sd)"

definition usc_call :: "shell_t \<Rightarrow> shell_driver_t \<Rightarrow> usc_call \<Rightarrow> shell_t" where
  "usc_call sh sd c = sh\<lparr>calls := calls sh @ [(usc_ref_of sd, c)]\<rparr>"

definition unix_socket_client_send :: "shell_t \<Rightarrow> shell_driver_t \<Rightarrow> string \<Rightarrow> shell_t" where
  "unix_socket_client_send sh sd d = usc_call sh sd (Usc_send d)"

definition unix_socket_client_recv ::
  "shell_t \<Rightarrow> shell_driver_t \<Rightarrow> nat \<Rightarrow> reader_fn \<Rightarrow> shell_t" where
  "unix_socket_client_recv sh sd n reader = usc_call sh sd (Usc_recv n reader)"

definition unix_socket_client_reconnect :: "shell_t \<Rightarrow> shell_driver_t \<Rightarrow> shell_t" where
  "unix_socket_client_reconnect sh sd = usc_call sh sd Usc_reconnect"

text \<open>\<^verbatim>\<open>buffer_realloc\<close>: the bytes that fit are kept.\<close>

definition buffer_realloc :: "buffer_t \<Rightarrow> nat \<Rightarrow> buffer_t" where
  "buffer_realloc b n =
     b\<lparr>b_data := take n (b_data b) @ replicate (n - length (b_data b)) (CHR 0x00)\<rparr>"

text \<open>A client and a shell as \<^verbatim>\<open>unix_socket_client_init\<close> and \<^verbatim>\<open>shell_init\<close> leave them.\<close>

definition usc_init :: usc_t where
  "usc_init = \<lparr>read_task_b = \<lparr>b_data = [], b_offset = 0\<rparr>,
               write_task_b = \<lparr>b_data = [], b_offset = 0\<rparr>,
               eof = False\<rparr>"

definition shell_init :: shell_t where
  "shell_init = \<lparr>clients = Map.empty, input_buffer = \<lparr>b_data = [], b_offset = 0\<rparr>,
                 sh_output = [], running = False, iosvc_stopped = False, calls = []\<rparr>"

section \<open>The directory supervisor: a created entry\<close>

text \<open>
  The scan of the bucket in \<^verbatim>\<open>base_dir_smth_created\<close> (lines 798 to 807): whether
  the loop leaves \<^verbatim>\<open>le\<close> on a record. The bound handed to \<^verbatim>\<open>strncmp\<close> is
  \<^verbatim>\<open>name_len\<close>, the length of the whole file name.
\<close>

fun find_created :: "shell_driver_t list \<Rightarrow> driver_description_t \<Rightarrow> nat \<Rightarrow> bool" where
  "find_created [] dd name_len = False"
| "find_created (sd # l) dd name_len =
     (if length (sd_name sd) \<noteq> driver_name_len dd then find_created l dd name_len
      else if strncmp_is_0 (sd_name sd) (driver_name dd) name_len
              \<and> sd_slot sd = slot_number dd then True
      else find_created l dd name_len)"

text \<open>
  \<^verbatim>\<open>base_dir_smth_created(sh, name, name_len)\<close>. What \<^verbatim>\<open>stat\<close> answers
  (\<^verbatim>\<open>check_unix_socket\<close>) and whether \<^verbatim>\<open>unix_socket_client_init\<close> succeeds are
  arguments. \<^verbatim>\<open>avl_tree_add_or_get\<close> finds the bucket of the hash or adds an empty
  one. The catalog of the new record is empty until \<^verbatim>\<open>reader_info\<close> installs one (the
  source leaves the vector as \<^verbatim>\<open>list_append\<close> returned it). \<open>Inl Abort\<close> is
  \<^verbatim>\<open>abort()\<close>.
\<close>

definition base_dir_smth_created ::
  "externs \<Rightarrow> shell_t \<Rightarrow> string \<Rightarrow> bool \<Rightarrow> bool \<Rightarrow> fatal + shell_t" where
  "base_dir_smth_created ex sh name is_socket init_ok =
     (if \<not> is_socket then Inr sh else
      case parse_unix_socket_name' (SUFFIX ex) name of
        Undefined_read \<Rightarrow> Inl Undefined_behaviour
      | Rejected \<Rightarrow> Inr sh
      | Parsed dd \<Rightarrow>
          let hash = hash_pearson ex
                (DRIVER_SLOT_ID (driver_name dd) (driver_name_len dd) (slot_number dd));
              l = (case clients sh hash of None \<Rightarrow> [] | Some l \<Rightarrow> l)
          in if find_created l dd (length name) then Inl Abort
             else if \<not> init_ok then Inl Abort
             else
               let sd = \<lparr>sd_name = name_slice dd, sd_slot = slot_number dd,
                          sd_commands = [], sd_usc = usc_init\<rparr>
               in Inr (usc_call (usc_call (sh\<lparr>clients := (clients sh)(hash \<mapsto> l @ [sd])\<rparr>)
                                   sd Usc_init) sd (Usc_connect name)))"

text \<open>
  A sequence of CREATED events for sockets whose clients can be initialised, as
  \<^verbatim>\<open>connect_to_all_existing_sockets\<close> and \<^verbatim>\<open>base_dir_event\<close> deliver them; the
  process is gone after an \<^verbatim>\<open>abort()\<close>.
\<close>

fun created_events :: "externs \<Rightarrow> shell_t \<Rightarrow> string list \<Rightarrow> fatal + shell_t" where
  "created_events ex sh [] = Inr sh"
| "created_events ex sh (name # names) =
     (case base_dir_smth_created ex sh name True True of
        Inl f \<Rightarrow> Inl f
      | Inr sh' \<Rightarrow> created_events ex sh' names)"

section \<open>The command dispatcher\<close>

definition finish_cmd :: "shell_t \<Rightarrow> shell_t" where
  "finish_cmd sh = fprintf sh PROMPT"

definition cmd_help :: "shell_t \<Rightarrow> shell_t" where
  "cmd_help sh = finish_cmd (fprintf sh HELP_MSG)"

definition cmd_invalid :: "shell_t \<Rightarrow> shell_t" where
  "cmd_invalid sh = finish_cmd (fprintf sh INVALID_MSG)"

text \<open>
  \<^verbatim>\<open>print_drv\<close> walks the tree, the two subtrees before the node. The order in which
  it meets the nodes depends on the shape of the tree, which the map does not have: the
  keys of the nodes, in that order, are the argument \<open>order\<close>.
\<close>

definition print_sdc :: "shell_driver_command_t \<Rightarrow> string" where
  "print_sdc sdc = c_str (sdc_name sdc) @ '' <arity: '' @ dec_of_nat (of_char (sdc_arity sdc))
     @ ''> --- '' @ c_str (sdc_descr sdc) @ NEW_LINE"

definition print_sd :: "shell_driver_t \<Rightarrow> string" where
  "print_sd sd = NEW_LINE @ ''Driver: '' @ take (length (sd_name sd)) (c_str (sd_name sd))
     @ NEW_LINE @ ''Slot: '' @ dec_of_nat (unat (sd_slot sd)) @ NEW_LINE
     @ concat (map print_sdc (sd_commands sd))"

definition print_drv :: "shell_t \<Rightarrow> hash_t list \<Rightarrow> string" where
  "print_drv sh order =
     concat (map (\<lambda>h. case clients sh h of None \<Rightarrow> [] | Some l \<Rightarrow> concat (map print_sd l))
               order)"

definition cmd_list :: "shell_t \<Rightarrow> hash_t list \<Rightarrow> shell_t" where
  "cmd_list sh order = finish_cmd (fprintf sh (print_drv sh order))"

text \<open>The scan of the bucket in \<^verbatim>\<open>cmd_cmd\<close> (lines 345 to 354): the record it stops at.\<close>

fun find_driver :: "shell_driver_t list \<Rightarrow> string \<Rightarrow> 32 word \<Rightarrow> shell_driver_t option" where
  "find_driver [] drv slot = None"
| "find_driver (sd # l) drv slot =
     (if length (sd_name sd) \<noteq> strlen drv then find_driver l drv slot
      else if strncmp_is_0 (sd_name sd) drv (strlen drv) \<and> sd_slot sd = slot then Some sd
      else find_driver l drv slot)"

text \<open>
  The scan of the catalog (lines 365 to 372), from index \<open>idx\<close> on: the index and the
  arity of the first command whose name \<^verbatim>\<open>strncmp\<close> finds equal.
\<close>

fun find_command :: "shell_driver_command_t list \<Rightarrow> string \<Rightarrow> nat \<Rightarrow> (nat \<times> char) option" where
  "find_command [] cmd idx = None"
| "find_command (sdc # cs) cmd idx =
     (if strncmp_is_0 (sdc_name sdc) cmd MAX_COMMAND_NAME_LEN then Some (idx, sdc_arity sdc)
      else find_command cs cmd (Suc idx))"

text \<open>The sum of the argument lengths (lines 392 to 395).\<close>

fun length_args :: "arg_from_input_t list \<Rightarrow> nat" where
  "length_args [] = 0"
| "length_args (afi # args) = of_char (afi_len afi) + length_args args"

text \<open>
  The loop that writes the arguments (lines 405 to 413): \<^verbatim>\<open>pdca\<close> is at \<open>p\<close> in the
  buffer; the length byte is stored, \<^verbatim>\<open>len\<close> bytes of the argument are copied behind
  it and \<^verbatim>\<open>pdca\<close> moves behind them.
\<close>

fun write_args :: "string \<Rightarrow> nat \<Rightarrow> arg_from_input_t list \<Rightarrow> string" where
  "write_args b p [] = b"
| "write_args b p (afi # args) =
     (let n = of_char (afi_len afi);
          b1 = memcpy b p [afi_len afi];
          arg_val = p + sizeof_pr_driver_command_argument_t;
          b2 = memcpy b1 arg_val (take n (afi_arg afi))
      in write_args b2 (arg_val + n) args)"

text \<open>
  The frame \<^verbatim>\<open>cmd_cmd\<close> builds (lines 390 to 413): a buffer of \<^verbatim>\<open>length_required\<close>
  bytes, the three fields of the header stored at their offsets (\<open>cmd_idx\<close> keeps its
  low 16 bits, \<open>argc\<close> its low 8), then the arguments.
\<close>

definition build_frame :: "externs \<Rightarrow> nat \<Rightarrow> arg_from_input_t list \<Rightarrow> string" where
  "build_frame ex cmd_idx args =
     (let length_required = sizeof_pr_driver_command_t
              + length args * sizeof_pr_driver_command_argument_t + length_args args;
          b = replicate length_required (CHR 0x00);
          b = memcpy b 0 [PR_DRV_COMMAND ex];
          b = memcpy b 1 (u16_bytes (host_order ex) cmd_idx);
          b = memcpy b 3 [char_of (length args)]
      in write_args b sizeof_pr_driver_command_t args)"

text \<open>\<^verbatim>\<open>cmd_cmd(sh, drv, slot, cmd, args)\<close>.\<close>

definition cmd_cmd ::
  "externs \<Rightarrow> shell_t \<Rightarrow> string \<Rightarrow> 32 word \<Rightarrow> string \<Rightarrow> arg_from_input_t list \<Rightarrow> shell_t" where
  "cmd_cmd ex sh drv slot cmd args =
     (case clients sh (hash_pearson ex (DRIVER_SLOT_ID drv (strlen drv) slot)) of
        None \<Rightarrow> cmd_invalid sh
      | Some l \<Rightarrow>
          (case find_driver l drv slot of
             None \<Rightarrow> cmd_invalid sh
           | Some sd \<Rightarrow>
               (case find_command (sd_commands sd) cmd 0 of
                  None \<Rightarrow> cmd_invalid sh
                | Some (cmd_idx, cmd_arity) \<Rightarrow>
                    if (of_char cmd_arity :: nat) < length args then cmd_invalid sh
                    else unix_socket_client_send sh sd (build_frame ex cmd_idx args))))"

subsection \<open>The dispatcher and the frame in the words of the spec\<close>

text \<open>
  Modelled from the spec: \<open>lookup(name, slot)\<close> of the registry, "keys are hashed with
  the external 8-bit hash" of the concatenation \<open><driver-name><slot>\<close>, and
  "collisions within a hash bucket are resolved by linear scan comparing \<open>(name, slot)\<close>
  exactly".
\<close>

definition spec_lookup :: "externs \<Rightarrow> shell_t \<Rightarrow> string \<Rightarrow> 32 word \<Rightarrow> shell_driver_t option" where
  "spec_lookup ex sh drv slot =
     (case clients sh (hash_pearson ex (drv @ dec_of_nat (unat slot))) of
        None \<Rightarrow> None
      | Some l \<Rightarrow> find (\<lambda>sd. sd_name sd = drv \<and> sd_slot sd = slot) l)"

text \<open>
  Modelled from the spec: the catalog entry "whose name matches \<open><name>\<close> byte-for-byte
  up to the 32-byte bound", the first one, with its index.
\<close>

fun spec_find_command ::
  "shell_driver_command_t list \<Rightarrow> string \<Rightarrow> (nat \<times> shell_driver_command_t) option" where
  "spec_find_command [] cmd = None"
| "spec_find_command (c # cs) cmd =
     (if take 32 (sdc_name c) = take 32 cmd then Some (0, c)
      else map_option (\<lambda>(i, c'). (Suc i, c')) (spec_find_command cs cmd))"

text \<open>
  Modelled from the spec: the Command frame layout
  \<open>signature : u8 | cmd_idx : u16 | argc : u8 | ({ len : u8, bytes : u8[len] } \<times> argc)\<close>.
\<close>

definition spec_command_frame :: "externs \<Rightarrow> nat \<Rightarrow> string list \<Rightarrow> string" where
  "spec_command_frame ex cmd_idx args =
     PR_DRV_COMMAND ex # u16_bytes (host_order ex) cmd_idx @ [char_of (length args)]
       @ concat (map (\<lambda>a. char_of (length a) # a) args)"

text \<open>
  Modelled from the spec: the decoder of a Command frame, which is the driver's and not
  among the sources. It reads the layout above and accepts a frame that ends with its
  last argument.
\<close>

fun parse_arguments :: "nat \<Rightarrow> string \<Rightarrow> string list option" where
  "parse_arguments 0 bs = (if bs = [] then Some [] else None)"
| "parse_arguments (Suc k) [] = None"
| "parse_arguments (Suc k) (l # bs) =
     (if length bs < of_char l then None
      else map_option (\<lambda>as. take (of_char l) bs # as)
             (parse_arguments k (drop (of_char l) bs)))"

definition parse_command_frame :: "externs \<Rightarrow> string \<Rightarrow> (nat \<times> string list) option" where
  "parse_command_frame ex bs =
     (if length bs < sizeof_pr_driver_command_t then None
      else if bs ! 0 \<noteq> PR_DRV_COMMAND ex then None
      else map_option (\<lambda>as. (u16_value (host_order ex) (take 2 (drop 1 bs)), as))
             (parse_arguments (of_char (bs ! 3)) (drop sizeof_pr_driver_command_t bs)))"

section \<open>The input line parser\<close>

lemma strtok_shorter: "strtok s = Some (tok, r) \<Longrightarrow> length r < length s"
proof -
  assume a: "strtok s = Some (tok, r)"
  define s1 where "s1 = dropWhile (\<lambda>c. c = CHR '' '') s"
  have eq: "strtok s = (if s1 = [] then None
      else Some (takeWhile (\<lambda>c. c \<noteq> CHR '' '') s1,
                 drop 1 (dropWhile (\<lambda>c. c \<noteq> CHR '' '') s1)))"
    unfolding strtok_def s1_def Let_def ..
  from a eq have ne: "s1 \<noteq> []"
    by (cases "s1 = []") simp_all
  with a eq have r: "r = drop 1 (dropWhile (\<lambda>c. c \<noteq> CHR '' '') s1)"
    by simp
  have "length r \<le> length s1 - 1"
    unfolding r by (simp add: length_dropWhile_le diff_le_mono)
  moreover have "length s1 \<le> length s"
    unfolding s1_def by (rule length_dropWhile_le)
  moreover have "length s1 > 0"
    using ne by simp
  ultimately show ?thesis
    by linarith
qed

text \<open>
  The writes into the input buffer. \<^verbatim>\<open>run_command_from_input\<close> overwrites the
  newline at \<^verbatim>\<open>offset\<close> with a terminator, and each \<^verbatim>\<open>strtok\<close> that finds a
  delimiter behind its token overwrites that delimiter: \<open>s\<close> is what is left of
  \<open>line\<close>, so it lies at \<open>length line - length s\<close> in the buffer. The line is read
  before it is written to: a write falls on a delimiter that the scan has passed, and
  no token holds one.
\<close>

definition terminate_input :: "shell_t \<Rightarrow> nat \<Rightarrow> shell_t" where
  "terminate_input sh p =
     sh\<lparr>input_buffer := (input_buffer sh)
          \<lparr>b_data := (b_data (input_buffer sh))[p := CHR 0x00]\<rparr>\<rparr>"

definition strtok_write :: "shell_t \<Rightarrow> string \<Rightarrow> string \<Rightarrow> shell_t" where
  "strtok_write sh line s =
     (case strtok_end s of
        None \<Rightarrow> sh
      | Some e \<Rightarrow> terminate_input sh (length line - length s + e))"

text \<open>
  The loop over the argument tokens in \<^verbatim>\<open>run_command_from_input\<close> (lines 497 to
  513): \<open>None\<close> when a token is longer than 255 bytes, else the vector of the
  arguments, each with its length stored in a \<^verbatim>\<open>uint8_t\<close>; and the shell with
  the writes of the calls of \<^verbatim>\<open>strtok\<close> that have been made.
\<close>

function read_args ::
  "shell_t \<Rightarrow> string \<Rightarrow> string \<Rightarrow> arg_from_input_t list
     \<Rightarrow> shell_t \<times> arg_from_input_t list option" where
  "read_args sh line rest args =
     (case strtok rest of
        None \<Rightarrow> (sh, Some args)
      | Some (token, rest') \<Rightarrow>
          if strlen token > 255 then (strtok_write sh line rest, None)
          else read_args (strtok_write sh line rest) line rest'
                 (args @ [\<lparr>afi_arg = token, afi_len = char_of (strlen token)\<rparr>]))"
  by pat_completeness auto
termination
proof (relation "measure (\<lambda>(sh, line, rest, args). length rest)")
  show "wf (measure (\<lambda>(sh, line, rest, args). length rest))"
    by simp
next
  fix sh :: shell_t and line rest :: string and args :: "arg_from_input_t list"
    and x2 token rest'
  assume "strtok rest = Some x2" and "(token, rest') = x2"
  then have "strtok rest = Some (token, rest')"
    by simp
  then have "length rest' < length rest"
    by (rule strtok_shorter)
  then show "((strtok_write sh line rest, line, rest',
        args @ [\<lparr>afi_arg = token, afi_len = char_of (strlen token)\<rparr>]), sh, line, rest, args)
        \<in> measure (\<lambda>(sh, line, rest, args). length rest)"
    by simp
qed

declare read_args.simps [simp del]

text \<open>The tokens of a line: what the successive calls of \<^verbatim>\<open>strtok\<close> return.\<close>

function tokens_of :: "string \<Rightarrow> string list" where
  "tokens_of s =
     (case strtok s of
        None \<Rightarrow> []
      | Some (token, rest) \<Rightarrow> token # tokens_of rest)"
  by pat_completeness auto
termination
proof (relation "measure length")
  show "wf (measure length)"
    by simp
next
  fix s :: string and x2 token rest
  assume "strtok s = Some x2" and "(token, rest) = x2"
  then have "strtok s = Some (token, rest)"
    by simp
  then have "length rest < length s"
    by (rule strtok_shorter)
  then show "(rest, s) \<in> measure length"
    by simp
qed

declare tokens_of.simps [simp del]

text \<open>
  \<^verbatim>\<open>run_command_from_input(sh)\<close>. The line is the C string at the start of the input
  buffer once the newline at \<^verbatim>\<open>offset\<close> has been overwritten with a terminator; its
  one caller has found the newline there. \<^verbatim>\<open>streq\<close> compares whole strings. The
  tokens are pointers into the buffer; what they point at is not written to again.
\<close>

definition run_command_from_input :: "externs \<Rightarrow> hash_t list \<Rightarrow> shell_t \<Rightarrow> shell_t" where
  "run_command_from_input ex order sh0 =
     (let line = c_str (take (b_offset (input_buffer sh0)) (b_data (input_buffer sh0)));
          sh = terminate_input sh0 (b_offset (input_buffer sh0))
      in case strtok line of
           None \<Rightarrow> cmd_invalid sh
         | Some (cmd, r1) \<Rightarrow>
             let sh = strtok_write sh line line
             in if cmd = ''list'' then cmd_list sh order
                else if cmd = ''help'' then cmd_help sh
                else if cmd \<noteq> ''cmd'' then cmd_invalid sh
                else
                  (case strtok r1 of
                     None \<Rightarrow> cmd_invalid sh
                   | Some (drv, r2) \<Rightarrow>
                       let sh = strtok_write sh line r1
                       in case strtok r2 of
                            None \<Rightarrow> cmd_invalid sh
                          | Some (slot, r3) \<Rightarrow>
                              let sh = strtok_write sh line r2
                              in case strtok r3 of
                                   None \<Rightarrow> cmd_invalid sh
                                 | Some (drv_cmd, r4) \<Rightarrow>
                                     let sh = strtok_write sh line r3
                                     in case strtoul slot of
                                          (slot_num, slot_endptr) \<Rightarrow>
                                            if chd slot_endptr \<noteq> CHR 0x00 then cmd_invalid sh
                                            else
                                              (case read_args sh line r4 [] of
                                                 (sh, None) \<Rightarrow> cmd_invalid sh
                                               | (sh, Some args) \<Rightarrow>
                                                   cmd_cmd ex sh drv (word_of_int slot_num)
                                                     drv_cmd args)))"

text \<open>The loop of \<^verbatim>\<open>detect_newline_on_input\<close>: whether a newline is found, and the offset.\<close>

function scan_newline :: "string \<Rightarrow> nat \<Rightarrow> bool \<times> nat" where
  "scan_newline d off =
     (if off < length d
      then (if d ! off = CHR 0x0A then (True, off) else scan_newline d (Suc off))
      else (False, off))"
  by pat_completeness auto
termination
  by (relation "measure (\<lambda>(d, off). length d - off)") auto

declare scan_newline.simps [simp del]

definition detect_newline_on_input :: "shell_t \<Rightarrow> bool \<times> shell_t" where
  "detect_newline_on_input sh =
     (if length (b_data (input_buffer sh)) = 0 then (False, sh)
      else case scan_newline (b_data (input_buffer sh)) (b_offset (input_buffer sh)) of
             (found, off) \<Rightarrow> (found, sh\<lparr>input_buffer := (input_buffer sh)\<lparr>b_offset := off\<rparr>\<rparr>))"

text \<open>\<^verbatim>\<open>shift_input\<close>: the line and its newline leave the buffer.\<close>

definition shift_input :: "shell_t \<Rightarrow> shell_t" where
  "shift_input sh =
     sh\<lparr>input_buffer := (input_buffer sh)
          \<lparr>b_data := drop (b_offset (input_buffer sh) + 1) (b_data (input_buffer sh))\<rparr>\<rparr>"

lemma input_buffer_fprintf: "input_buffer (fprintf sh s) = input_buffer sh"
  by (simp add: fprintf_def)

lemma input_buffer_usc_call: "input_buffer (usc_call sh sd c) = input_buffer sh"
  by (simp add: usc_call_def)

lemma input_buffer_cmd_invalid: "input_buffer (cmd_invalid sh) = input_buffer sh"
  by (simp add: cmd_invalid_def finish_cmd_def input_buffer_fprintf)

lemma input_buffer_cmd_cmd: "input_buffer (cmd_cmd ex sh drv slot cmd args) = input_buffer sh"
  by (simp add: cmd_cmd_def unix_socket_client_send_def input_buffer_usc_call
      input_buffer_cmd_invalid split: option.split prod.split)

lemma input_buffer_cmd_list: "input_buffer (cmd_list sh order) = input_buffer sh"
  by (simp add: cmd_list_def finish_cmd_def input_buffer_fprintf)

lemma input_buffer_cmd_help: "input_buffer (cmd_help sh) = input_buffer sh"
  by (simp add: cmd_help_def finish_cmd_def input_buffer_fprintf)

lemma frame_terminate_input:
  "b_offset (input_buffer (terminate_input sh p)) = b_offset (input_buffer sh)"
  "length (b_data (input_buffer (terminate_input sh p))) = length (b_data (input_buffer sh))"
  by (simp_all add: terminate_input_def)

lemma frame_strtok_write:
  "b_offset (input_buffer (strtok_write sh line s)) = b_offset (input_buffer sh)"
  "length (b_data (input_buffer (strtok_write sh line s))) = length (b_data (input_buffer sh))"
  by (simp_all add: strtok_write_def frame_terminate_input split: option.split)

lemma frame_read_args:
  "read_args sh line rest args = (sh', res) \<Longrightarrow>
   b_offset (input_buffer sh') = b_offset (input_buffer sh)
   \<and> length (b_data (input_buffer sh')) = length (b_data (input_buffer sh))"
proof (induction sh line rest args rule: read_args.induct)
  case (1 sh line rest args)
  show ?case
  proof (cases "strtok rest")
    case None
    with "1.prems" show ?thesis
      by (simp add: read_args.simps [of sh line rest])
  next
    case (Some p)
    obtain token rest' where p: "p = (token, rest')"
      by (cases p)
    show ?thesis
    proof (cases "strlen token > 255")
      case True
      with Some p "1.prems" show ?thesis
        by (auto simp: read_args.simps [of sh line rest] frame_strtok_write)
    next
      case False
      with Some p "1.prems"
      have "read_args (strtok_write sh line rest) line rest'
          (args @ [\<lparr>afi_arg = token, afi_len = char_of (strlen token)\<rparr>]) = (sh', res)"
        by (simp add: read_args.simps [of sh line rest])
      from "1.IH" [OF Some p [symmetric] False this] show ?thesis
        by (simp add: frame_strtok_write)
    qed
  qed
qed

lemma restore_terminate_input:
  "(terminate_input sh p)\<lparr>input_buffer := ib\<rparr> = sh\<lparr>input_buffer := ib\<rparr>"
  by (simp add: terminate_input_def)

lemma restore_strtok_write:
  "(strtok_write sh line s)\<lparr>input_buffer := ib\<rparr> = sh\<lparr>input_buffer := ib\<rparr>"
  by (simp add: strtok_write_def restore_terminate_input split: option.split)

lemma restore_read_args:
  "read_args sh line rest args = (sh', res) \<Longrightarrow>
   sh'\<lparr>input_buffer := ib\<rparr> = sh\<lparr>input_buffer := ib\<rparr>"
proof (induction sh line rest args rule: read_args.induct)
  case (1 sh line rest args)
  show ?case
  proof (cases "strtok rest")
    case None
    with "1.prems" show ?thesis
      by (simp add: read_args.simps [of sh line rest])
  next
    case (Some p)
    obtain token rest' where p: "p = (token, rest')"
      by (cases p)
    show ?thesis
    proof (cases "strlen token > 255")
      case True
      with Some p "1.prems" show ?thesis
        by (auto simp: read_args.simps [of sh line rest] restore_strtok_write)
    next
      case False
      with Some p "1.prems"
      have "read_args (strtok_write sh line rest) line rest'
          (args @ [\<lparr>afi_arg = token, afi_len = char_of (strlen token)\<rparr>]) = (sh', res)"
        by (simp add: read_args.simps [of sh line rest])
      from "1.IH" [OF Some p [symmetric] False this] show ?thesis
        by (simp add: restore_strtok_write)
    qed
  qed
qed

lemma frame_run_command:
  "b_offset (input_buffer (run_command_from_input ex order sh)) = b_offset (input_buffer sh)"
  "length (b_data (input_buffer (run_command_from_input ex order sh)))
     = length (b_data (input_buffer sh))"
  by (auto simp: run_command_from_input_def Let_def input_buffer_cmd_list input_buffer_cmd_help
      input_buffer_cmd_invalid input_buffer_cmd_cmd frame_terminate_input frame_strtok_write
      split: option.split prod.split dest!: frame_read_args)

lemma scan_newline_found: "scan_newline d off = (True, off') \<Longrightarrow> off' < length d"
proof (induction d off rule: scan_newline.induct)
  case (1 d off)
  then show ?case
    by (simp add: scan_newline.simps [of d off] split: if_splits)
qed

lemma detect_newline_found:
  assumes "detect_newline_on_input sh = (True, sh')"
  shows "b_offset (input_buffer sh') < length (b_data (input_buffer sh'))"
    and "b_data (input_buffer sh') = b_data (input_buffer sh)"
  using assms
  by (auto simp: detect_newline_on_input_def split: if_splits prod.splits
      dest: scan_newline_found)

text \<open>
  The loop of \<^verbatim>\<open>on_input\<close> (lines 572 to 576): a line is run, shifted out and the
  offset is reset, until no newline is left in the buffer.
\<close>

function input_loop :: "externs \<Rightarrow> hash_t list \<Rightarrow> shell_t \<Rightarrow> shell_t" where
  "input_loop ex order sh =
     (case detect_newline_on_input sh of
        (False, sh') \<Rightarrow> sh'
      | (True, sh') \<Rightarrow>
          input_loop ex order
            ((shift_input (run_command_from_input ex order sh'))
               \<lparr>input_buffer :=
                  (input_buffer (shift_input (run_command_from_input ex order sh')))
                    \<lparr>b_offset := 0\<rparr>\<rparr>))"
  by pat_completeness auto
termination
  apply (relation "measure (\<lambda>(ex, order, sh). length (b_data (input_buffer sh)))")
   apply simp
  apply (simp add: shift_input_def frame_run_command)
  apply (drule sym)
  apply (frule detect_newline_found(1))
  apply (drule detect_newline_found(2))
  apply simp
  done

declare input_loop.simps [simp del]

text \<open>
  \<^verbatim>\<open>on_input\<close>. What the descriptor delivers is an argument: a failed
  \<^verbatim>\<open>ioctl\<close>, a failed \<^verbatim>\<open>read\<close>, or the bytes that are pending (none at the end
  of the input).
\<close>

datatype input_event = Ioctl_failed | Read_failed | Pending string

definition on_input :: "externs \<Rightarrow> hash_t list \<Rightarrow> shell_t \<Rightarrow> input_event \<Rightarrow> fatal + shell_t" where
  "on_input ex order sh ev =
     (case ev of
        Ioctl_failed \<Rightarrow> Inl Abort
      | Read_failed \<Rightarrow> Inl Abort
      | Pending bytes \<Rightarrow>
          if length bytes = 0 then Inr (sh\<lparr>iosvc_stopped := True\<rparr>)
          else Inr (input_loop ex order
                 (sh\<lparr>input_buffer := (input_buffer sh)
                       \<lparr>b_data := b_data (input_buffer sh) @ bytes\<rparr>\<rparr>)))"

section \<open>The client callbacks\<close>

text \<open>
  A callback gets the client it is called for; the client is embedded in its driver
  record, so the callbacks are functions of the record. \<open>error\<close> is the
  \<^verbatim>\<open>int\<close> the client library passes. A reader that looks at a field it has not
  received the bytes of yields \<open>None\<close>.
\<close>

definition set_read_offset :: "shell_driver_t \<Rightarrow> nat \<Rightarrow> shell_driver_t" where
  "set_read_offset sd off =
     sd\<lparr>sd_usc := (sd_usc sd)\<lparr>read_task_b := (read_task_b (sd_usc sd))\<lparr>b_offset := off\<rparr>\<rparr>\<rparr>"

text \<open>
  The macro \<^verbatim>\<open>READ_ERROR_HANDLER\<close> at the head of each reader: the shell with which the
  reader returns at once, or \<open>None\<close> when the reader goes on. What
  \<^verbatim>\<open>unix_socket_client_reconnect\<close> answers is only logged here.
\<close>

definition READ_ERROR_HANDLER :: "shell_driver_t \<Rightarrow> int \<Rightarrow> shell_t \<Rightarrow> shell_t option" where
  "READ_ERROR_HANDLER sd error sh =
     (if error \<noteq> 0 then Some (unix_socket_client_reconnect sh sd)
      else if eof (sd_usc sd) then Some sh
      else None)"

text \<open>
  \<^verbatim>\<open>writer(usc, error, sh)\<close>, the continuation of a send. Whether the reconnect
  succeeds is the argument \<open>reconnect_ok\<close>.
\<close>

definition writer ::
  "shell_driver_t \<Rightarrow> int \<Rightarrow> bool \<Rightarrow> shell_t \<Rightarrow> shell_driver_t \<times> shell_t" where
  "writer sd error reconnect_ok sh =
     (let sd' = sd\<lparr>sd_usc := (sd_usc sd)
                  \<lparr>read_task_b := buffer_realloc (read_task_b (sd_usc sd)) 0,
                   write_task_b := buffer_realloc (write_task_b (sd_usc sd)) 0\<rparr>\<rparr>
      in if error \<noteq> 0
         then (let sh' = unix_socket_client_reconnect sh sd
               in if \<not> reconnect_ok then (sd', sh')
                  else (sd', fprintf sh' PROMPT))
         else (sd', unix_socket_client_recv sh sd sizeof_pr_signature_t Reader_signature))"

text \<open>\<^verbatim>\<open>connector(usc, sh)\<close>, the continuation of a connect.\<close>

definition connector :: "shell_driver_t \<Rightarrow> shell_t \<Rightarrow> shell_driver_t \<times> shell_t" where
  "connector sd sh =
     (let sd' = sd\<lparr>sd_usc := (sd_usc sd)
                  \<lparr>read_task_b := buffer_realloc (read_task_b (sd_usc sd)) 0,
                   write_task_b := buffer_realloc (write_task_b (sd_usc sd)) 0\<rparr>\<rparr>
      in (sd', unix_socket_client_recv sh sd sizeof_pr_signature_t Reader_signature))"

text \<open>\<^verbatim>\<open>reader_signature(usc, error, sh)\<close>: the first byte of the read buffer decides.\<close>

definition reader_signature ::
  "externs \<Rightarrow> shell_driver_t \<Rightarrow> int \<Rightarrow> shell_t \<Rightarrow> (shell_driver_t \<times> shell_t) option" where
  "reader_signature ex sd error sh =
     (case READ_ERROR_HANDLER sd error sh of
        Some sh' \<Rightarrow> Some (sd, sh')
      | None \<Rightarrow>
          let d = b_data (read_task_b (sd_usc sd))
          in if length d < sizeof_pr_signature_t then None
             else
               let sd' = set_read_offset sd sizeof_pr_signature_t
               in if d ! 0 = PR_DRV_INFO ex
                  then Some (sd', unix_socket_client_recv sh sd
                         (sizeof_pr_driver_info_t - sizeof_pr_signature_t) Reader_info)
                  else if d ! 0 = PR_DRV_RESPONSE ex
                  then Some (sd', unix_socket_client_recv sh sd
                         (sizeof_pr_driver_response_t - sizeof_pr_signature_t) Reader_response)
                  else Some (sd', unix_socket_client_reconnect sh sd))"

text \<open>
  The command descriptor \<open>idx\<close> of an info frame, copied as \<^verbatim>\<open>reader_info\<close> copies
  it (lines 653 to 661): both strings are cut at their bound.
\<close>

definition read_command_info :: "string \<Rightarrow> nat \<Rightarrow> shell_driver_command_t" where
  "read_command_info d idx =
     (let dci = drop (sizeof_pr_driver_info_t + idx * sizeof_pr_driver_command_info_t) d
      in \<lparr>sdc_name = c_str (take MAX_COMMAND_NAME_LEN dci),
          sdc_arity = dci ! (MAX_COMMAND_NAME_LEN + MAX_COMMAND_DESCRIPTION_LEN),
          sdc_descr = c_str (take MAX_COMMAND_DESCRIPTION_LEN (drop MAX_COMMAND_NAME_LEN dci))\<rparr>)"

text \<open>\<^verbatim>\<open>reader_info(usc, error, sh)\<close>.\<close>

definition reader_info ::
  "externs \<Rightarrow> shell_driver_t \<Rightarrow> int \<Rightarrow> shell_t \<Rightarrow> (shell_driver_t \<times> shell_t) option" where
  "reader_info ex sd error sh =
     (case READ_ERROR_HANDLER sd error sh of
        Some sh' \<Rightarrow> Some (sd, sh')
      | None \<Rightarrow>
          let d = b_data (read_task_b (sd_usc sd))
          in if length d < sizeof_pr_driver_info_t then None
             else
               let commands_number = u16_value (host_order ex) (take 2 (drop 1 d));
                   required_length = sizeof_pr_driver_info_t
                       + sizeof_pr_driver_command_info_t * commands_number
               in if length d < required_length
                  then Some (set_read_offset sd (length d),
                         unix_socket_client_recv sh sd (required_length - length d) Reader_info)
                  else Some (sd\<lparr>sd_commands := map (read_command_info d) [0..<commands_number]\<rparr>,
                         sh))"

text \<open>\<^verbatim>\<open>reader_response(usc, error, sh)\<close>.\<close>

definition reader_response ::
  "externs \<Rightarrow> shell_driver_t \<Rightarrow> int \<Rightarrow> shell_t \<Rightarrow> (shell_driver_t \<times> shell_t) option" where
  "reader_response ex sd error sh =
     (case READ_ERROR_HANDLER sd error sh of
        Some sh' \<Rightarrow> Some (sd, sh')
      | None \<Rightarrow>
          let d = b_data (read_task_b (sd_usc sd))
          in if length d < sizeof_pr_driver_response_t then None
             else
               let len = u32_value (host_order ex) (take 4 (drop 1 d));
                   required_length = sizeof_pr_driver_response_t + nat len
               in if length d < required_length
                  then Some (set_read_offset sd (length d),
                         unix_socket_client_recv sh sd (required_length - length d)
                           Reader_response)
                  else (case printf_precision_s len (drop sizeof_pr_driver_response_t d) of
                          None \<Rightarrow> None
                        | Some txt \<Rightarrow> Some (sd, finish_cmd (fprintf sh (txt @ NEW_LINE)))))"

section \<open>Example data\<close>

text \<open>
  The scenario of the spec: the suffix \<open>drv\<close>, the endpoint \<open>thermo.3.drv\<close> and the
  catalog of two commands, \<open>read\<close> of arity 0 and \<open>set\<close> of arity 1. The hash and the
  signature bytes are chosen freely.
\<close>

definition externs_drv :: externs where
  "externs_drv = \<lparr>hash_pearson = (\<lambda>s. word_of_nat (length s)), SUFFIX = ''drv'',
                  PR_DRV_COMMAND = CHR 0x00, PR_DRV_INFO = CHR 0x01,
                  PR_DRV_RESPONSE = CHR 0x02, host_order = Little_endian\<rparr>"

definition thermo_fresh :: shell_driver_t where
  "thermo_fresh = \<lparr>sd_name = ''thermo'', sd_slot = 3, sd_commands = [], sd_usc = usc_init\<rparr>"

definition thermo :: shell_driver_t where
  "thermo = thermo_fresh\<lparr>sd_commands :=
     [\<lparr>sdc_name = ''read'', sdc_arity = CHR 0x00, sdc_descr = ''get temperature''\<rparr>,
      \<lparr>sdc_name = ''set'', sdc_arity = CHR 0x01, sdc_descr = ''assign setpoint''\<rparr>]\<rparr>"

definition shell_thermo :: shell_t where
  "shell_thermo = shell_init\<lparr>clients := [7 \<mapsto> [thermo]]\<rparr>"

text \<open>
  The shell of the scenario with a complete line \<open>l\<close> in its input buffer, the offset
  on the newline as \<^verbatim>\<open>detect_newline_on_input\<close> leaves it.
\<close>

definition shell_line :: "string \<Rightarrow> shell_t" where
  "shell_line l = shell_thermo\<lparr>input_buffer := \<lparr>b_data = l @ [CHR 0x0A], b_offset = length l\<rparr>\<rparr>"

text \<open>A line of words with one blank between them.\<close>

fun words_line :: "string list \<Rightarrow> string" where
  "words_line [] = []"
| "words_line [w] = w"
| "words_line (w # v # ws) = w @ CHR '' '' # words_line (v # ws)"

text \<open>The driver record of the scenario with \<open>d\<close> in its read buffer and the given \<^verbatim>\<open>eof\<close> flag.\<close>

definition thermo_read :: "string \<Rightarrow> bool \<Rightarrow> shell_driver_t" where
  "thermo_read d e =
     thermo\<lparr>sd_usc := \<lparr>read_task_b = \<lparr>b_data = d, b_offset = 0\<rparr>,
                       write_task_b = \<lparr>b_data = [], b_offset = 0\<rparr>, eof = e\<rparr>\<rparr>"

section \<open>Properties\<close>

subsection \<open>The endpoint-name parser\<close>

lemma of_char_digit_char: "d < 10 \<Longrightarrow> (of_char (digit_char d) :: nat) = 48 + d"
  by (simp add: digit_char_def)

lemma isdigit_digit_char: "d < 10 \<Longrightarrow> isdigit (digit_char d)"
  by (simp add: isdigit_def of_char_digit_char)

lemma isdigit_not_dot: "isdigit c \<Longrightarrow> c \<noteq> CHR ''.''"
  by (auto simp: isdigit_def)

lemma isdigit_not_slash: "isdigit c \<Longrightarrow> c \<noteq> CHR ''/''"
  by (auto simp: isdigit_def)

lemma dec_of_nat_isdigit: "c \<in> set (dec_of_nat n) \<Longrightarrow> isdigit c"
proof (induction n arbitrary: c rule: dec_of_nat.induct)
  case (1 n)
  show ?case
  proof (cases "n < 10")
    case True
    with "1.prems" show ?thesis
      by (simp add: dec_of_nat.simps [of n] isdigit_digit_char)
  next
    case False
    with "1.prems" "1.IH" show ?thesis
      by (auto simp: dec_of_nat.simps [of n] isdigit_digit_char)
  qed
qed

lemma dec_of_nat_not_Nil: "dec_of_nat n \<noteq> []"
  by (simp add: dec_of_nat.simps [of n])

lemma digits_value_snoc:
  "digits_value (ds @ [c]) = 10 * digits_value ds + (of_char c - 48)"
  by (simp add: digits_value_def)

lemma digits_value_dec_of_nat: "digits_value (dec_of_nat n) = n"
proof (induction n rule: dec_of_nat.induct)
  case (1 n)
  show ?case
  proof (cases "n < 10")
    case True
    then show ?thesis
      by (simp add: dec_of_nat.simps [of n] digits_value_def of_char_digit_char)
  next
    case False
    with "1.IH" show ?thesis
      by (simp add: dec_of_nat.simps [of n] digits_value_snoc of_char_digit_char)
  qed
qed

lemma find_back_no_slash:
  "CHR ''/'' \<notin> set s \<Longrightarrow> b < length s \<Longrightarrow> find_back s b = 0"
  by (induction b) (auto dest: nth_mem)

lemma scan_name_end_takeWhile:
  "e \<le> length s \<Longrightarrow>
   scan_name_end s e = e + length (takeWhile (\<lambda>c. c \<noteq> CHR ''.'') (drop e s))"
proof (induction s e rule: scan_name_end.induct)
  case (1 name e)
  show ?case
  proof (cases "e < length name \<and> name ! e \<noteq> CHR ''.''")
    case True
    then have "drop e name = name ! e # drop (Suc e) name"
      by (simp add: Cons_nth_drop_Suc)
    with True "1.IH" show ?thesis
      by (simp add: scan_name_end.simps [of name e])
  next
    case False
    show ?thesis
    proof (cases "e < length name")
      case True
      then have "drop e name = name ! e # drop (Suc e) name"
        by (simp add: Cons_nth_drop_Suc)
      with True False show ?thesis
        by (simp add: scan_name_end.simps [of name e])
    next
      case False
      then show ?thesis
        by (simp add: scan_name_end.simps [of name e])
    qed
  qed
qed

lemma scan_slot_end_takeWhile:
  "e \<le> length s \<Longrightarrow>
   scan_slot_end s e =
     e + length (takeWhile (\<lambda>c. c \<noteq> CHR ''.'' \<and> isdigit c) (drop e s))"
proof (induction s e rule: scan_slot_end.induct)
  case (1 name e)
  show ?case
  proof (cases "e < length name")
    case True
    then have d: "drop e name = name ! e # drop (Suc e) name"
      by (simp add: Cons_nth_drop_Suc)
    show ?thesis
    proof (cases "name ! e \<noteq> CHR ''.'' \<and> isdigit (name ! e)")
      case True
      with \<open>e < length name\<close> d "1.IH" show ?thesis
        by (simp add: scan_slot_end.simps [of name e])
    next
      case False
      with d show ?thesis
        by (auto simp: scan_slot_end.simps [of name e])
    qed
  next
    case False
    then show ?thesis
      by (simp add: scan_slot_end.simps [of name e])
  qed
qed

lemma strncmp_is_0_refl: "strncmp_is_0 a a n"
  by (induction n arbitrary: a) auto

lemma takeWhile_stop:
  "\<forall>c \<in> set xs. P c \<Longrightarrow> \<not> P d \<Longrightarrow> takeWhile P (xs @ d # r) = xs"
  by (induction xs) auto

text \<open>
  C4: for every driver name that is not empty and holds neither \<open>.\<close> nor \<open>/\<close>, and
  for every 32-bit slot number, the file name \<open><name>.<slot>.<SUFFIX>\<close> is parsed
  successfully into exactly that name and that slot. The suffix is the constant of the
  absent header; as a part of a file name it holds no \<open>/\<close>.
\<close>

theorem parse_format_roundtrip:
  assumes ne: "name \<noteq> []"
    and nodot: "CHR ''.'' \<notin> set name"
    and noslash: "CHR ''/'' \<notin> set name"
    and nosl: "CHR ''/'' \<notin> set sfx"
  shows "parse_unix_socket_name' sfx (format_unix_socket_name sfx name slot) =
           Parsed \<lparr>driver_name = format_unix_socket_name sfx name slot,
                   driver_name_len = length name,
                   slot_number = slot\<rparr>
         \<and> name_slice \<lparr>driver_name = format_unix_socket_name sfx name slot,
                   driver_name_len = length name,
                   slot_number = slot\<rparr> = name"
proof -
  define ds where "ds = dec_of_nat (unat slot)"
  define s where "s = format_unix_socket_name sfx name slot"
  have s: "s = name @ CHR ''.'' # ds @ CHR ''.'' # sfx"
    by (simp add: s_def ds_def format_unix_socket_name_def)
  have dig: "\<forall>c \<in> set ds. isdigit c"
    by (simp add: ds_def dec_of_nat_isdigit)
  have dsne: "ds \<noteq> []"
    by (simp add: ds_def dec_of_nat_not_Nil)
  have "CHR ''/'' \<notin> set ds"
    using dig isdigit_not_slash by blast
  with noslash nosl have "CHR ''/'' \<notin> set s"
    by (simp add: s)
  moreover have "length s - 1 < length s"
    by (simp add: s)
  ultimately have bk: "find_back s (length s - 1) = 0"
    by (rule find_back_no_slash)
  have "takeWhile (\<lambda>c. c \<noteq> CHR ''.'') s = name"
    using nodot by (auto simp: s intro!: takeWhile_stop)
  then have name_end: "scan_name_end s 0 = length name"
    by (simp add: scan_name_end_takeWhile)
  have drop_slot: "drop (length name + 1) s = ds @ CHR ''.'' # sfx"
    by (simp add: s)
  have "takeWhile (\<lambda>c. c \<noteq> CHR ''.'' \<and> isdigit c) (ds @ CHR ''.'' # sfx) = ds"
    using dig isdigit_not_dot by (auto intro!: takeWhile_stop)
  then have slot_end: "scan_slot_end s (length name + 1) = length name + 1 + length ds"
    by (simp add: scan_slot_end_takeWhile drop_slot s)
  have at_end: "s ! (length name + 1 + length ds) = CHR ''.''"
    by (simp add: s nth_append)
  have len: "length s - (length name + 1 + length ds) = length sfx + 1"
    by (simp add: s)
  have drop_suffix: "drop (length name + 1 + length ds + 1) s = sfx"
    by (simp add: s)
  have "\<not> isdigit (CHR ''.'')"
    by (simp add: isdigit_def)
  with dig have "takeWhile isdigit (ds @ CHR ''.'' # sfx) = ds"
    by (rule takeWhile_stop)
  then have "atoi (drop (length name + 1) s)
      = word_of_int (min (int (digits_value ds)) 9223372036854775807)"
    unfolding drop_slot atoi_def by simp
  moreover have "uint slot < 4294967296"
    using unsigned_less [of slot, where 'a = int] by simp
  then have "min (int (unat slot)) 9223372036854775807 = int (unat slot)"
    by (simp add: min_def)
  ultimately have slot: "atoi (drop (length name + 1) s) = slot"
    by (simp add: ds_def digits_value_dec_of_nat)
  have "s \<noteq> []" "length name \<noteq> length s" "length ds \<noteq> 0"
       "length name + 1 + length ds \<noteq> length s"
    using dsne by (simp_all add: s)
  then have "parse_unix_socket_name' sfx s =
      Parsed \<lparr>driver_name = s, driver_name_len = length name, slot_number = slot\<rparr>"
    using ne bk name_end slot_end at_end len drop_suffix slot
    by (simp add: parse_unix_socket_name'_def Let_def strncmp_is_0_refl)
  moreover have "take (length name) s = name"
    by (simp add: s)
  ultimately show ?thesis
    by (simp add: s_def name_slice_def)
qed

theorem parse_format_roundtrip_witness:
  "''thermo'' \<noteq> [] \<and> CHR ''.'' \<notin> set ''thermo'' \<and> CHR ''/'' \<notin> set ''thermo''
   \<and> CHR ''/'' \<notin> set ''drv''
   \<and> parse_unix_socket_name' ''drv'' ''thermo.3.drv'' =
         Parsed \<lparr>driver_name = ''thermo.3.drv'', driver_name_len = 6, slot_number = 3\<rparr>
   \<and> name_slice \<lparr>driver_name = ''thermo.3.drv'', driver_name_len = 6, slot_number = 3\<rparr>
         = ''thermo''"
proof -
  have f: "format_unix_socket_name ''drv'' ''thermo'' 3 = ''thermo.3.drv''"
    by code_simp
  show ?thesis
    using parse_format_roundtrip [of "''thermo''" "''drv''" 3] unfolding f
    by (simp add: name_slice_def)
qed

text \<open>
  Beyond the slots: a digit string from \<open>2^63\<close> on is read as \<^verbatim>\<open>LONG_MAX\<close>, whose low
  32 bits are all set, and a smaller one keeps its low 32 bits.
\<close>

lemma atoi_saturates:
  "atoi ''9223372036854775808.drv'' = 4294967295"
  "atoi ''4294967299.drv'' = 3"
  by (simp_all add: atoi_def isdigit_def digits_value_def)
text \<open>
  C5: the parser is meant to strip everything up to and including the last \<open>/\<close>
  (its comment reads \<open>path/name.slot.drv\<close>), so that \<open>a/b.1.drv\<close> would give the
  name \<open>b\<close> as \<open>b.1.drv\<close> does. The loop stops on the \<open>/\<close> and the name starts
  there: \<open>a/b.1.drv\<close> gives the name \<open>/b\<close>, and \<open>a/.1.drv\<close>, whose remainder
  \<open>.1.drv\<close> has an empty name part and is rejected on its own, is accepted with the
  name \<open>/\<close>.
\<close>

theorem parse_path_keeps_slash:
  "parse_unix_socket_name' ''drv'' ''a/b.1.drv'' =
     Parsed \<lparr>driver_name = ''/b.1.drv'', driver_name_len = 2, slot_number = 1\<rparr>
   \<and> name_slice \<lparr>driver_name = ''/b.1.drv'', driver_name_len = 2, slot_number = 1\<rparr> = ''/b''
   \<and> parse_unix_socket_name' ''drv'' ''b.1.drv'' =
     Parsed \<lparr>driver_name = ''b.1.drv'', driver_name_len = 1, slot_number = 1\<rparr>
   \<and> name_slice \<lparr>driver_name = ''b.1.drv'', driver_name_len = 1, slot_number = 1\<rparr> = ''b''
   \<and> parse_unix_socket_name' ''drv'' ''a/.1.drv'' =
     Parsed \<lparr>driver_name = ''/.1.drv'', driver_name_len = 1, slot_number = 1\<rparr>
   \<and> parse_unix_socket_name' ''drv'' ''.1.drv'' = Rejected"
proof -
  have "parse_unix_socket_name' ''drv'' ''a/b.1.drv'' =
     Parsed \<lparr>driver_name = ''/b.1.drv'', driver_name_len = 2, slot_number = 1\<rparr>"
    by code_simp
  moreover have "parse_unix_socket_name' ''drv'' ''b.1.drv'' =
     Parsed \<lparr>driver_name = ''b.1.drv'', driver_name_len = 1, slot_number = 1\<rparr>"
    by code_simp
  moreover have "parse_unix_socket_name' ''drv'' ''a/.1.drv'' =
     Parsed \<lparr>driver_name = ''/.1.drv'', driver_name_len = 1, slot_number = 1\<rparr>"
    by code_simp
  moreover have "parse_unix_socket_name' ''drv'' ''.1.drv'' = Rejected"
    by code_simp
  ultimately show ?thesis
    by (simp add: name_slice_def)
qed

subsection \<open>The registry\<close>

lemma base_dir_smth_created_Parsed:
  assumes "parse_unix_socket_name' (SUFFIX ex) name = Parsed dd"
    and "DRIVER_SLOT_ID (driver_name dd) (driver_name_len dd) (slot_number dd) = ident"
    and "(case clients sh (hash_pearson ex ident) of None \<Rightarrow> [] | Some l \<Rightarrow> l) = l"
    and "\<not> find_created l dd (length name)"
  shows "base_dir_smth_created ex sh name True True =
     Inr (sh\<lparr>clients := (clients sh)(hash_pearson ex ident \<mapsto>
                l @ [\<lparr>sd_name = name_slice dd, sd_slot = slot_number dd,
                       sd_commands = [], sd_usc = usc_init\<rparr>]),
              calls := calls sh @ [((name_slice dd, slot_number dd), Usc_init),
                                   ((name_slice dd, slot_number dd), Usc_connect name)]\<rparr>)"
  using assms by (simp add: base_dir_smth_created_def Let_def usc_call_def usc_ref_of_def)

text \<open>
  C1: a CREATED event for an identity that has a record is meant to be fatal. The scan
  for the record compares with \<^verbatim>\<open>strncmp\<close> over the length of the whole file name,
  so the terminator of the stored name meets the \<open>.\<close> behind the name in the file name
  and no record is ever found equal: the second CREATED event for \<open>thermo.3.drv\<close> does
  not abort and appends a second record for (\<open>thermo\<close>, 3), whatever the hash is.
\<close>

theorem duplicate_created_appended:
  "created_events (ex\<lparr>SUFFIX := ''drv''\<rparr>) shell_init [''thermo.3.drv'', ''thermo.3.drv''] =
     Inr (shell_init
       \<lparr>clients := [hash_pearson ex ''thermo3'' \<mapsto> [thermo_fresh, thermo_fresh]],
        calls := [((''thermo'', 3), Usc_init), ((''thermo'', 3), Usc_connect ''thermo.3.drv''),
                  ((''thermo'', 3), Usc_init), ((''thermo'', 3), Usc_connect ''thermo.3.drv'')]\<rparr>)"
proof -
  let ?ex = "ex\<lparr>SUFFIX := ''drv''\<rparr>"
  let ?dd = "\<lparr>driver_name = ''thermo.3.drv'', driver_name_len = 6, slot_number = 3\<rparr>"
  let ?sh1 = "shell_init
       \<lparr>clients := [hash_pearson ex ''thermo3'' \<mapsto> [thermo_fresh]],
        calls := [((''thermo'', 3), Usc_init), ((''thermo'', 3), Usc_connect ''thermo.3.drv'')]\<rparr>"
  have "parse_unix_socket_name' ''drv'' ''thermo.3.drv'' = Parsed ?dd"
    by code_simp
  then have p: "parse_unix_socket_name' (SUFFIX ?ex) ''thermo.3.drv'' = Parsed ?dd"
    by simp
  have "DRIVER_SLOT_ID ''thermo.3.drv'' 6 3 = ''thermo3''"
    by code_simp
  then have i: "DRIVER_SLOT_ID (driver_name ?dd) (driver_name_len ?dd) (slot_number ?dd)
      = ''thermo3''"
    by simp
  have s: "name_slice ?dd = ''thermo''" "slot_number ?dd = 3"
    by (simp_all add: name_slice_def)
  have n0: "\<not> find_created [] ?dd (length ''thermo.3.drv'')"
    by simp
  have n1: "\<not> find_created [thermo_fresh] ?dd (length ''thermo.3.drv'')"
    by (simp add: thermo_fresh_def)
  have c0: "(case clients shell_init (hash_pearson ?ex ''thermo3'') of None \<Rightarrow> []
      | Some l \<Rightarrow> l) = []"
    by (simp add: shell_init_def)
  have c1: "(case clients ?sh1 (hash_pearson ?ex ''thermo3'') of None \<Rightarrow> []
      | Some l \<Rightarrow> l) = [thermo_fresh]"
    by simp
  have first: "base_dir_smth_created ?ex shell_init ''thermo.3.drv'' True True = Inr ?sh1"
    unfolding base_dir_smth_created_Parsed [OF p i c0 n0] s
    by (simp add: shell_init_def thermo_fresh_def)
  have second: "base_dir_smth_created ?ex ?sh1 ''thermo.3.drv'' True True =
     Inr (shell_init
       \<lparr>clients := [hash_pearson ex ''thermo3'' \<mapsto> [thermo_fresh, thermo_fresh]],
        calls := [((''thermo'', 3), Usc_init), ((''thermo'', 3), Usc_connect ''thermo.3.drv''),
                  ((''thermo'', 3), Usc_init), ((''thermo'', 3), Usc_connect ''thermo.3.drv'')]\<rparr>)"
    unfolding base_dir_smth_created_Parsed [OF p i c1 n1] s
    by (simp add: shell_init_def thermo_fresh_def)
  show ?thesis
    by (simp add: first second)
qed

subsection \<open>The input line parser\<close>

lemma c_str_no_NUL: "CHR 0x00 \<notin> set (c_str buf)"
  unfolding c_str_def by (auto dest: set_takeWhileD)

lemma c_str_id: "CHR 0x00 \<notin> set s \<Longrightarrow> c_str s = s"
  unfolding c_str_def by (induction s) auto

lemma strlen_length: "CHR 0x00 \<notin> set s \<Longrightarrow> strlen s = length s"
  by (simp add: strlen_def c_str_id)

lemma strtok_Some:
  assumes "strtok s = Some (tok, r)"
  shows "tok \<noteq> []" and "set tok \<subseteq> set s" and "set r \<subseteq> set s"
proof -
  define s1 where "s1 = dropWhile (\<lambda>c. c = CHR '' '') s"
  have eq: "strtok s = (if s1 = [] then None
      else Some (takeWhile (\<lambda>c. c \<noteq> CHR '' '') s1,
                 drop 1 (dropWhile (\<lambda>c. c \<noteq> CHR '' '') s1)))"
    unfolding strtok_def s1_def Let_def ..
  from assms eq have ne: "s1 \<noteq> []"
    by (cases "s1 = []") simp_all
  with assms eq have tok: "tok = takeWhile (\<lambda>c. c \<noteq> CHR '' '') s1"
    and r: "r = drop 1 (dropWhile (\<lambda>c. c \<noteq> CHR '' '') s1)"
    by simp_all
  have "hd s1 \<noteq> CHR '' ''"
    using ne unfolding s1_def by (rule hd_dropWhile)
  with ne show "tok \<noteq> []"
    unfolding tok by (cases s1) auto
  have sub: "set s1 \<subseteq> set s"
    unfolding s1_def by (auto dest: set_dropWhileD)
  show "set tok \<subseteq> set s"
    using sub unfolding tok by (auto dest: set_takeWhileD)
  show "set r \<subseteq> set s"
    using sub unfolding r by (auto dest!: in_set_dropD set_dropWhileD)
qed

lemma tokens_of_Cons:
  assumes "tokens_of s = t # ts"
  obtains r where "strtok s = Some (t, r)" and "tokens_of r = ts"
  using assms by (simp add: tokens_of.simps [of s] split: option.splits prod.splits)

lemma tokens_of_no_NUL:
  "CHR 0x00 \<notin> set s \<Longrightarrow> t \<in> set (tokens_of s) \<Longrightarrow> CHR 0x00 \<notin> set t"
proof (induction s rule: tokens_of.induct)
  case (1 s)
  show ?case
  proof (cases "strtok s")
    case None
    with "1.prems" show ?thesis
      by (simp add: tokens_of.simps [of s])
  next
    case (Some p)
    obtain tok r where p: "p = (tok, r)"
      by (cases p)
    from Some p have st: "strtok s = Some (tok, r)"
      by simp
    from strtok_Some [OF st] "1.prems"(1)
    have "CHR 0x00 \<notin> set tok" "CHR 0x00 \<notin> set r"
      by auto
    moreover from "1.prems"(2) st have "t = tok \<or> t \<in> set (tokens_of r)"
      by (simp add: tokens_of.simps [of s])
    ultimately show ?thesis
      using "1.IH" [OF Some p [symmetric]] by auto
  qed
qed

lemma read_args_tokens:
  "snd (read_args sh line r acc) =
     (if list_all (\<lambda>a. strlen a \<le> 255) (tokens_of r)
      then Some (acc @ map (\<lambda>a. \<lparr>afi_arg = a, afi_len = char_of (strlen a)\<rparr>) (tokens_of r))
      else None)"
proof (induction sh line r acc rule: read_args.induct)
  case (1 sh line rest args)
  show ?case
  proof (cases "strtok rest")
    case None
    then show ?thesis
      by (simp add: read_args.simps [of sh line rest] tokens_of.simps [of rest])
  next
    case (Some p)
    obtain tok r where p: "p = (tok, r)"
      by (cases p)
    show ?thesis
    proof (cases "strlen tok > 255")
      case True
      with Some p show ?thesis
        by (simp add: read_args.simps [of sh line rest] tokens_of.simps [of rest])
    next
      case False
      with Some p "1.IH" [OF Some p [symmetric] False] show ?thesis
        by (simp add: read_args.simps [of sh line rest] tokens_of.simps [of rest])
    qed
  qed
qed

lemma cmd_invalid_eq:
  "cmd_invalid sh = sh\<lparr>sh_output := sh_output sh @ INVALID_MSG @ PROMPT\<rparr>"
  by (simp add: cmd_invalid_def finish_cmd_def fprintf_def)

lemma restore_cmd_invalid:
  "(cmd_invalid sh)\<lparr>input_buffer := ib\<rparr> = cmd_invalid (sh\<lparr>input_buffer := ib\<rparr>)"
  by (simp add: cmd_invalid_def finish_cmd_def fprintf_def)

lemma restore_cmd_cmd:
  "(cmd_cmd ex sh drv slot cmd args)\<lparr>input_buffer := ib\<rparr>
     = cmd_cmd ex (sh\<lparr>input_buffer := ib\<rparr>) drv slot cmd args"
  by (simp add: cmd_cmd_def cmd_invalid_def finish_cmd_def fprintf_def
      unix_socket_client_send_def usc_call_def split: option.split prod.split)

text \<open>
  A \<open>cmd\<close> line with its four positional tokens: apart from the input buffer, where
  the terminators have been written, the shell is left as \<open>cmd_cmd\<close> or
  \<open>cmd_invalid\<close> leaves it.
\<close>

lemma run_command_cmd_tokens:
  assumes "tokens_of (c_str (take (b_offset (input_buffer sh)) (b_data (input_buffer sh))))
      = ''cmd'' # drv # slot # nm # args"
  shows "(run_command_from_input ex order sh)\<lparr>input_buffer := input_buffer sh\<rparr> =
     (case strtoul slot of
        (v, e) \<Rightarrow>
          if chd e \<noteq> CHR 0x00 then cmd_invalid sh
          else if list_all (\<lambda>a. length a \<le> 255) args
          then cmd_cmd ex sh drv (word_of_int v) nm
                 (map (\<lambda>a. \<lparr>afi_arg = a, afi_len = char_of (length a)\<rparr>) args)
          else cmd_invalid sh)"
proof -
  define line where
    "line = c_str (take (b_offset (input_buffer sh)) (b_data (input_buffer sh)))"
  from assms have t0: "tokens_of line = ''cmd'' # drv # slot # nm # args"
    by (simp add: line_def)
  from t0 obtain r1 where s1: "strtok line = Some (''cmd'', r1)"
    and t1: "tokens_of r1 = drv # slot # nm # args"
    by (rule tokens_of_Cons)
  from t1 obtain r2 where s2: "strtok r1 = Some (drv, r2)"
    and t2: "tokens_of r2 = slot # nm # args"
    by (rule tokens_of_Cons)
  from t2 obtain r3 where s3: "strtok r2 = Some (slot, r3)"
    and t3: "tokens_of r3 = nm # args"
    by (rule tokens_of_Cons)
  from t3 obtain r4 where s4: "strtok r3 = Some (nm, r4)"
    and t4: "tokens_of r4 = args"
    by (rule tokens_of_Cons)
  have "CHR 0x00 \<notin> set line"
    unfolding line_def by (rule c_str_no_NUL)
  then have "\<And>a. a \<in> set (tokens_of line) \<Longrightarrow> CHR 0x00 \<notin> set a"
    by (rule tokens_of_no_NUL)
  then have len: "\<And>a. a \<in> set args \<Longrightarrow> strlen a = length a"
    by (simp add: t0 strlen_length)
  define sh4 where "sh4 = strtok_write (strtok_write (strtok_write (strtok_write
      (terminate_input sh (b_offset (input_buffer sh))) line line) line r1) line r2) line r3"
  have k4: "sh4\<lparr>input_buffer := input_buffer sh\<rparr> = sh"
    by (simp add: sh4_def restore_strtok_write restore_terminate_input)
  obtain sh5 res where ra: "read_args sh4 line r4 [] = (sh5, res)"
    by (cases "read_args sh4 line r4 []")
  from restore_read_args [OF ra, of "input_buffer sh"] k4
  have k5: "sh5\<lparr>input_buffer := input_buffer sh\<rparr> = sh"
    by simp
  from read_args_tokens [of sh4 line r4 "[]"] ra len
  have res: "res =
     (if list_all (\<lambda>a. length a \<le> 255) args
      then Some (map (\<lambda>a. \<lparr>afi_arg = a, afi_len = char_of (length a)\<rparr>) args)
      else None)"
    by (simp add: t4 list_all_iff cong: map_cong)
  have run: "run_command_from_input ex order sh =
     (case strtoul slot of
        (v, e) \<Rightarrow>
          if chd e \<noteq> CHR 0x00 then cmd_invalid sh4
          else (case res of
                  None \<Rightarrow> cmd_invalid sh5
                | Some as \<Rightarrow> cmd_cmd ex sh5 drv (word_of_int v) nm as))"
    unfolding run_command_from_input_def line_def [symmetric] Let_def
    by (simp add: s1 s2 s3 s4 sh4_def [symmetric] ra split: prod.split)
  show ?thesis
    unfolding run
    by (simp add: restore_cmd_invalid restore_cmd_cmd k4 k5 res split: prod.split)
qed


lemma strtok_token:
  assumes "t \<noteq> []" and "CHR '' '' \<notin> set t"
  shows "strtok (t @ CHR '' '' # r) = Some (t, r)" and "strtok t = Some (t, [])"
proof -
  from assms obtain c cs where t: "t = c # cs" and c: "c \<noteq> CHR '' ''"
    by (cases t) auto
  have d1: "dropWhile (\<lambda>c. c = CHR '' '') (t @ CHR '' '' # r) = t @ CHR '' '' # r"
    by (simp add: t c)
  have d2: "dropWhile (\<lambda>c. c = CHR '' '') t = t"
    by (simp add: t c)
  have all: "\<forall>x \<in> set t. x \<noteq> CHR '' ''"
    using assms(2) by auto
  then have t1: "takeWhile (\<lambda>c. c \<noteq> CHR '' '') (t @ CHR '' '' # r) = t"
    by (intro takeWhile_stop) simp_all
  have t2: "dropWhile (\<lambda>c. c \<noteq> CHR '' '') (t @ CHR '' '' # r) = CHR '' '' # r"
    using all by (simp add: dropWhile_append2)
  have t3: "takeWhile (\<lambda>c. c \<noteq> CHR '' '') t = t"
    using all by (simp add: takeWhile_eq_all_conv)
  have t4: "dropWhile (\<lambda>c. c \<noteq> CHR '' '') t = []"
    using all by (simp add: dropWhile_eq_Nil_conv)
  show "strtok (t @ CHR '' '' # r) = Some (t, r)"
    unfolding strtok_def Let_def d1 t1 t2 by (simp add: t)
  show "strtok t = Some (t, [])"
    unfolding strtok_def Let_def d2 t3 t4 by (simp add: t)
qed

lemma tokens_of_token:
  assumes "t \<noteq> []" and "CHR '' '' \<notin> set t"
  shows "tokens_of (t @ CHR '' '' # r) = t # tokens_of r" and "tokens_of t = [t]"
proof -
  have "strtok [] = None"
    by (simp add: strtok_def)
  then have "tokens_of [] = []"
    by (simp add: tokens_of.simps [of "[]"])
  then show "tokens_of (t @ CHR '' '' # r) = t # tokens_of r" and "tokens_of t = [t]"
    using strtok_token [OF assms]
    by (simp_all add: tokens_of.simps [of "t @ CHR '' '' # r"] tokens_of.simps [of t])
qed

lemma set_words_line: "set (words_line ws) \<subseteq> insert (CHR '' '') (\<Union>w \<in> set ws. set w)"
  by (induction ws rule: words_line.induct) auto

lemma tokens_of_words_line:
  "\<forall>w \<in> set ws. w \<noteq> [] \<and> CHR '' '' \<notin> set w \<Longrightarrow> tokens_of (words_line ws) = ws"
proof (induction ws rule: words_line.induct)
  case 1
  have "strtok [] = None"
    by (simp add: strtok_def)
  then show ?case
    by (simp add: tokens_of.simps [of "[]"])
next
  case (2 w)
  then show ?case
    by (simp add: tokens_of_token(2))
next
  case (3 w v ws)
  then have "tokens_of (w @ CHR '' '' # words_line (v # ws)) = w # tokens_of (words_line (v # ws))"
    by (intro tokens_of_token(1)) simp_all
  with 3 show ?case
    by simp
qed

lemma tokens_of_shell_line:
  assumes "\<forall>w \<in> set ws. w \<noteq> [] \<and> CHR '' '' \<notin> set w \<and> CHR 0x00 \<notin> set w"
  shows "tokens_of (c_str (take (b_offset (input_buffer (shell_line (words_line ws))))
           (b_data (input_buffer (shell_line (words_line ws)))))) = ws"
proof -
  from assms set_words_line [of ws] have "CHR 0x00 \<notin> set (words_line ws)"
    by auto
  then have "c_str (words_line ws) = words_line ws"
    by (rule c_str_id)
  moreover from assms have "tokens_of (words_line ws) = ws"
    by (intro tokens_of_words_line) simp
  ultimately show ?thesis
    by (simp add: shell_line_def)
qed

text \<open>
  The writes into the input buffer, on the line \<open>cmd thermo 3 set 42\<close>: the newline
  and the delimiter behind each token but the last are terminators when the line has
  been run.
\<close>

lemma run_command_writes:
  "b_data (input_buffer
     (run_command_from_input externs_drv [7] (shell_line ''cmd thermo 3 set 42'')))
   = ''cmd'' @ CHR 0x00 # ''thermo'' @ CHR 0x00 # ''3'' @ CHR 0x00 # ''set'' @ CHR 0x00
       # ''42'' @ [CHR 0x00]"
  by code_simp


lemma scan_newline_line:
  "CHR 0x0A \<notin> set xs \<Longrightarrow> off \<le> length xs \<Longrightarrow>
   scan_newline (xs @ CHR 0x0A # ys) off = (True, length xs)"
proof (induction "length xs - off" arbitrary: off)
  case 0
  then have "off = length xs"
    by simp
  then show ?case
    by (simp add: scan_newline.simps [of _ "length xs"])
next
  case (Suc k)
  then have lt: "off < length xs"
    by simp
  with Suc.prems(1) have "xs ! off \<noteq> CHR 0x0A"
    by (auto dest: nth_mem)
  with lt have "scan_newline (xs @ CHR 0x0A # ys) off = scan_newline (xs @ CHR 0x0A # ys) (Suc off)"
    by (simp add: scan_newline.simps [of _ off] nth_append)
  also have "\<dots> = (True, length xs)"
    using Suc lt by (intro Suc.hyps(1)) simp_all
  finally show ?case .
qed

lemma strtok_spaces: "strtok (replicate n (CHR '' '')) = None"
  by (simp add: strtok_def dropWhile_eq_Nil_conv)

lemma run_command_blank_line:
  assumes "c_str (take (b_offset (input_buffer sh)) (b_data (input_buffer sh)))
      = replicate n (CHR '' '')"
  shows "run_command_from_input ex order sh
     = cmd_invalid (terminate_input sh (b_offset (input_buffer sh)))"
  by (simp add: run_command_from_input_def Let_def assms strtok_spaces)

lemma iosvc_stopped_read_args:
  "read_args sh line rest args = (sh', res) \<Longrightarrow> iosvc_stopped sh' = iosvc_stopped sh"
  by (drule restore_read_args [where ib = "input_buffer sh"],
      drule arg_cong [where f = iosvc_stopped], simp)

lemma iosvc_stopped_cmd:
  "iosvc_stopped (cmd_invalid sh) = iosvc_stopped sh"
  "iosvc_stopped (cmd_help sh) = iosvc_stopped sh"
  "iosvc_stopped (cmd_list sh order) = iosvc_stopped sh"
  "iosvc_stopped (cmd_cmd ex sh drv slot cmd args) = iosvc_stopped sh"
  "iosvc_stopped (terminate_input sh p) = iosvc_stopped sh"
  "iosvc_stopped (strtok_write sh line s) = iosvc_stopped sh"
  by (simp_all add: cmd_list_def cmd_help_def cmd_invalid_def finish_cmd_def fprintf_def
      cmd_cmd_def unix_socket_client_send_def usc_call_def terminate_input_def
      strtok_write_def split: option.split prod.split)

lemma iosvc_stopped_run_command:
  "iosvc_stopped (run_command_from_input ex order sh) = iosvc_stopped sh"
  by (auto simp: run_command_from_input_def Let_def iosvc_stopped_cmd
      split: option.split prod.split dest!: iosvc_stopped_read_args)

lemma iosvc_stopped_input_loop: "iosvc_stopped (input_loop ex order sh) = iosvc_stopped sh"
proof (induction ex order sh rule: input_loop.induct)
  case (1 ex order sh)
  obtain found sh' where d: "detect_newline_on_input sh = (found, sh')"
    by (cases "detect_newline_on_input sh")
  then have s: "iosvc_stopped sh' = iosvc_stopped sh"
    by (auto simp: detect_newline_on_input_def split: if_splits prod.splits)
  show ?case
  proof (cases found)
    case True
    with d "1.IH" [of found sh'] s show ?thesis
      by (simp add: input_loop.simps [of ex order sh] shift_input_def
          iosvc_stopped_run_command)
  next
    case False
    with d s show ?thesis
      by (simp add: input_loop.simps [of ex order sh])
  qed
qed

text \<open>
  C10: a complete input line without a token (spaces only in front of the newline,
  none for the empty line; some of them may have arrived and been scanned before) is
  not ignored: the shell prints \<open>Invalid command\<close> and the prompt, takes the line out
  of the input buffer and goes on with the bytes behind it. This does not stop the
  reactor; when nothing is behind the line, nothing else changes. The reactor is
  stopped when the input has no pending byte (its end).
\<close>

theorem empty_line_invalid:
  assumes "k \<le> m"
  shows "on_input ex order (sh\<lparr>input_buffer := \<lparr>b_data = replicate m (CHR '' ''), b_offset = k\<rparr>\<rparr>)
       (Pending (replicate n (CHR '' '') @ CHR 0x0A # rest)) =
     Inr (input_loop ex order
            (sh\<lparr>input_buffer := \<lparr>b_data = rest, b_offset = 0\<rparr>,
                sh_output := sh_output sh @ INVALID_MSG @ PROMPT\<rparr>))
   \<and> iosvc_stopped (input_loop ex order
            (sh\<lparr>input_buffer := \<lparr>b_data = rest, b_offset = 0\<rparr>,
                sh_output := sh_output sh @ INVALID_MSG @ PROMPT\<rparr>)) = iosvc_stopped sh
   \<and> input_loop ex order
            (sh\<lparr>input_buffer := \<lparr>b_data = [], b_offset = 0\<rparr>,
                sh_output := sh_output sh @ INVALID_MSG @ PROMPT\<rparr>) =
         sh\<lparr>input_buffer := \<lparr>b_data = [], b_offset = 0\<rparr>,
            sh_output := sh_output sh @ INVALID_MSG @ PROMPT\<rparr>
   \<and> on_input ex order sh (Pending []) = Inr (sh\<lparr>iosvc_stopped := True\<rparr>)"
proof -
  let ?l = "replicate (m + n) (CHR '' '')"
  let ?d = "?l @ CHR 0x0A # rest"
  let ?sh1 = "sh\<lparr>input_buffer := \<lparr>b_data = ?d, b_offset = k\<rparr>\<rparr>"
  let ?sh2 = "sh\<lparr>input_buffer := \<lparr>b_data = ?d, b_offset = m + n\<rparr>\<rparr>"
  let ?sh3 = "\<lambda>r. sh\<lparr>input_buffer := \<lparr>b_data = r, b_offset = 0\<rparr>,
                 sh_output := sh_output sh @ INVALID_MSG @ PROMPT\<rparr>"
  have "scan_newline ?d k = (True, length ?l)"
    using assms by (intro scan_newline_line) simp_all
  then have d1: "detect_newline_on_input ?sh1 = (True, ?sh2)"
    by (simp add: detect_newline_on_input_def)
  have "c_str (take (b_offset (input_buffer ?sh2)) (b_data (input_buffer ?sh2))) = ?l"
    by (simp add: c_str_id)
  then have "run_command_from_input ex order ?sh2
      = cmd_invalid (terminate_input ?sh2 (b_offset (input_buffer ?sh2)))"
    by (rule run_command_blank_line)
  then have r: "(shift_input (run_command_from_input ex order ?sh2))
      \<lparr>input_buffer := (input_buffer (shift_input (run_command_from_input ex order ?sh2)))
         \<lparr>b_offset := 0\<rparr>\<rparr> = ?sh3 rest"
    by (simp add: cmd_invalid_eq shift_input_def terminate_input_def)
  have "input_loop ex order ?sh1 = input_loop ex order (?sh3 rest)"
    by (simp add: input_loop.simps [of ex order ?sh1] d1 r)
  then have 1: "on_input ex order
       (sh\<lparr>input_buffer := \<lparr>b_data = replicate m (CHR '' ''), b_offset = k\<rparr>\<rparr>)
       (Pending (replicate n (CHR '' '') @ CHR 0x0A # rest)) =
     Inr (input_loop ex order (?sh3 rest))"
    by (simp add: on_input_def replicate_add)
  have 2: "iosvc_stopped (input_loop ex order (?sh3 rest)) = iosvc_stopped sh"
    by (simp add: iosvc_stopped_input_loop)
  have "detect_newline_on_input (?sh3 []) = (False, ?sh3 [])"
    by (simp add: detect_newline_on_input_def)
  then have 3: "input_loop ex order (?sh3 []) = ?sh3 []"
    by (simp add: input_loop.simps [of ex order "?sh3 []"])
  have 4: "on_input ex order sh (Pending []) = Inr (sh\<lparr>iosvc_stopped := True\<rparr>)"
    by (simp add: on_input_def)
  from 1 2 3 4 show ?thesis
    by simp
qed

theorem empty_line_invalid_witness:
  "(1 :: nat) \<le> 2
   \<and> on_input externs_drv [7]
       (shell_thermo\<lparr>input_buffer := \<lparr>b_data = replicate 2 (CHR '' ''), b_offset = 1\<rparr>\<rparr>)
       (Pending (replicate 1 (CHR '' '') @ CHR 0x0A # [])) =
     Inr (shell_thermo\<lparr>input_buffer := \<lparr>b_data = [], b_offset = 0\<rparr>,
            sh_output := sh_output shell_thermo @ INVALID_MSG @ PROMPT\<rparr>)
   \<and> iosvc_stopped (shell_thermo\<lparr>input_buffer := \<lparr>b_data = [], b_offset = 0\<rparr>,
            sh_output := sh_output shell_thermo @ INVALID_MSG @ PROMPT\<rparr>) = False
   \<and> on_input externs_drv [7] shell_thermo (Pending []) =
     Inr (shell_thermo\<lparr>iosvc_stopped := True\<rparr>)"
proof -
  have "(1 :: nat) \<le> 2"
    by simp
  from empty_line_invalid [OF this, of externs_drv "[7]" shell_thermo 1 "[]"]
  show ?thesis
    by (simp add: shell_thermo_def shell_init_def)
qed

subsection \<open>The command frame\<close>

lemma of_char_lt_256: "(of_char c :: nat) < 256"
proof -
  have "(of_char c :: nat) mod 256 = of_char c"
    by (rule of_char_mod_256)
  moreover have "(of_char c :: nat) mod 256 < 256"
    by simp
  ultimately show ?thesis
    by simp
qed

lemma length_memcpy: "p + length src \<le> length b \<Longrightarrow> length (memcpy b p src) = length b"
  by (simp add: memcpy_def)

lemma take_memcpy: "p + length src \<le> length b \<Longrightarrow> take (p + length src) (memcpy b p src) = take p b @ src"
  by (simp add: memcpy_def)

lemma write_args_layout:
  assumes "list_all (\<lambda>a. of_char (afi_len a) \<le> length (afi_arg a)) args"
    and "length b = p + length args + length_args args"
  shows "write_args b p args =
     take p b @ concat (map (\<lambda>a. afi_len a # take (of_char (afi_len a)) (afi_arg a)) args)"
  using assms
proof (induction args arbitrary: b p)
  case Nil
  then show ?case
    by simp
next
  case (Cons a args)
  define n :: nat where "n = of_char (afi_len a)"
  define b1 where "b1 = memcpy b p [afi_len a]"
  define b2 where "b2 = memcpy b1 (p + 1) (take n (afi_arg a))"
  from Cons.prems have n: "length (take n (afi_arg a)) = n"
    by (simp add: n_def)
  from Cons.prems(2) have len: "length b = p + 1 + n + (length args + length_args args)"
    by (simp add: n_def)
  then have l1: "length b1 = length b"
    unfolding b1_def by (intro length_memcpy) simp
  have t1: "take (p + 1) b1 = take p b @ [afi_len a]"
    unfolding b1_def using take_memcpy [of p "[afi_len a]" b] len by simp
  have l2: "length b2 = length b"
    unfolding b2_def using l1 len n by (simp add: length_memcpy)
  have "take (p + 1 + length (take n (afi_arg a))) b2 = take (p + 1) b1 @ take n (afi_arg a)"
    unfolding b2_def using l1 len n by (intro take_memcpy) simp
  then have "take (p + 1 + n) b2 = take (p + 1) b1 @ take n (afi_arg a)"
    unfolding n .
  then have t2: "take (p + 1 + n) b2 = take p b @ afi_len a # take n (afi_arg a)"
    unfolding t1 by simp
  have "write_args b p (a # args) = write_args b2 (p + 1 + n) args"
    by (simp add: Let_def n_def b1_def b2_def sizeof_pr_driver_command_argument_t_def)
  also have "\<dots> = take (p + 1 + n) b2
      @ concat (map (\<lambda>a. afi_len a # take (of_char (afi_len a)) (afi_arg a)) args)"
    using Cons.prems(1) l2 len by (intro Cons.IH) simp_all
  finally have e: "write_args b p (a # args) = take (p + 1 + n) b2
      @ concat (map (\<lambda>a. afi_len a # take (of_char (afi_len a)) (afi_arg a)) args)" .
  have rhs: "take p b
      @ concat (map (\<lambda>a. afi_len a # take (of_char (afi_len a)) (afi_arg a)) (a # args))
      = take (p + 1 + n) b2
      @ concat (map (\<lambda>a. afi_len a # take (of_char (afi_len a)) (afi_arg a)) args)"
    using t2 by (simp add: n_def)
  show ?case
    unfolding rhs by (rule e)
qed

lemma length_u16_bytes: "length (u16_bytes bo n) = 2"
  by (cases bo) (simp_all add: u16_bytes_def)

lemma build_frame_layout:
  assumes "list_all (\<lambda>a. of_char (afi_len a) \<le> length (afi_arg a)) args"
  shows "build_frame ex cmd_idx args =
     PR_DRV_COMMAND ex # u16_bytes (host_order ex) cmd_idx @ [char_of (length args)]
       @ concat (map (\<lambda>a. afi_len a # take (of_char (afi_len a)) (afi_arg a)) args)"
proof -
  define L where "L = 4 + length args + length_args args"
  define b0 where "b0 = replicate L (CHR 0x00)"
  define b1 where "b1 = memcpy b0 0 [PR_DRV_COMMAND ex]"
  define b2 where "b2 = memcpy b1 1 (u16_bytes (host_order ex) cmd_idx)"
  define b3 where "b3 = memcpy b2 3 [char_of (length args)]"
  have l0: "length b0 = L"
    by (simp add: b0_def)
  have l1: "length b1 = L"
    unfolding b1_def using l0 by (simp add: length_memcpy L_def)
  have l2: "length b2 = L"
    unfolding b2_def using l1 by (simp add: length_memcpy length_u16_bytes L_def)
  have l3: "length b3 = L"
    unfolding b3_def using l2 by (simp add: length_memcpy L_def)
  have "take (0 + length [PR_DRV_COMMAND ex]) b1 = take 0 b0 @ [PR_DRV_COMMAND ex]"
    unfolding b1_def using l0 by (intro take_memcpy) (simp add: L_def)
  then have t1: "take 1 b1 = [PR_DRV_COMMAND ex]"
    by simp
  have "take (1 + length (u16_bytes (host_order ex) cmd_idx)) b2
      = take 1 b1 @ u16_bytes (host_order ex) cmd_idx"
    unfolding b2_def using l1 by (intro take_memcpy) (simp add: L_def length_u16_bytes)
  moreover have "1 + length (u16_bytes (host_order ex) cmd_idx) = 3"
    by (simp add: length_u16_bytes)
  ultimately have t2: "take 3 b2 = PR_DRV_COMMAND ex # u16_bytes (host_order ex) cmd_idx"
    unfolding t1 by simp
  have "take (3 + length [char_of (length args)]) b3 = take 3 b2 @ [char_of (length args)]"
    unfolding b3_def using l2 by (intro take_memcpy) (simp add: L_def)
  moreover have "3 + length [char_of (length args)] = 4"
    by simp
  ultimately have t3: "take 4 b3
      = PR_DRV_COMMAND ex # u16_bytes (host_order ex) cmd_idx @ [char_of (length args)]"
    unfolding t2 by simp
  have "build_frame ex cmd_idx args = write_args b3 4 args"
    by (simp add: build_frame_def Let_def b3_def b2_def b1_def b0_def L_def
        sizeof_pr_driver_command_t_def sizeof_pr_driver_command_argument_t_def)
  also have "\<dots> = take 4 b3
      @ concat (map (\<lambda>a. afi_len a # take (of_char (afi_len a)) (afi_arg a)) args)"
    using assms l3 by (intro write_args_layout) (simp_all add: L_def)
  finally show ?thesis
    by (simp add: t3)
qed

lemma build_frame_spec:
  assumes "list_all (\<lambda>a. length a \<le> 255) as"
  shows "build_frame ex cmd_idx (map (\<lambda>a. \<lparr>afi_arg = a, afi_len = char_of (length a)\<rparr>) as)
     = spec_command_frame ex cmd_idx as"
proof -
  have n: "length a mod 256 = length a" if "a \<in> set as" for a
  proof -
    from that assms have "length a \<le> 255"
      by (simp add: list_all_iff)
    then show ?thesis
      by simp
  qed
  have "list_all (\<lambda>a. of_char (afi_len a) \<le> length (afi_arg a))
      (map (\<lambda>a. \<lparr>afi_arg = a, afi_len = char_of (length a)\<rparr>) as)"
    by (simp add: list_all_iff)
  then have "build_frame ex cmd_idx (map (\<lambda>a. \<lparr>afi_arg = a, afi_len = char_of (length a)\<rparr>) as)
     = PR_DRV_COMMAND ex # u16_bytes (host_order ex) cmd_idx @ [char_of (length as)]
       @ concat (map (\<lambda>a. afi_len a # take (of_char (afi_len a)) (afi_arg a))
           (map (\<lambda>a. \<lparr>afi_arg = a, afi_len = char_of (length a)\<rparr>) as))"
    by (simp add: build_frame_layout)
  also have "map (\<lambda>a. afi_len a # take (of_char (afi_len a)) (afi_arg a))
           (map (\<lambda>a. \<lparr>afi_arg = a, afi_len = char_of (length a)\<rparr>) as)
       = map (\<lambda>a. char_of (length a) # a) as"
    by (simp add: comp_def n cong: map_cong)
  finally show ?thesis
    by (simp add: spec_command_frame_def)
qed

lemma parse_arguments_encoded:
  assumes "list_all (\<lambda>a. length a \<le> 255) as"
  shows "parse_arguments (length as) (concat (map (\<lambda>a. char_of (length a) # a) as)) = Some as"
  using assms by (induction as) simp_all

lemma u16_value_bytes: "n < 65536 \<Longrightarrow> u16_value bo (u16_bytes bo n) = n"
proof -
  assume n: "n < 65536"
  then have "n div 256 mod 256 = n div 256"
    by simp
  moreover have "n mod 256 + 256 * (n div 256) = n"
    by simp
  ultimately show ?thesis
    by (cases bo) (simp_all add: u16_value_def u16_bytes_def)
qed

lemma parse_command_frame_spec:
  assumes "cmd_idx < 65536" and "length as \<le> 255" and "list_all (\<lambda>a. length a \<le> 255) as"
  shows "parse_command_frame ex (spec_command_frame ex cmd_idx as) = Some (cmd_idx, as)"
proof -
  obtain x y where u: "u16_bytes (host_order ex) cmd_idx = [x, y]"
    using length_u16_bytes [of "host_order ex" cmd_idx]
    by (cases "u16_bytes (host_order ex) cmd_idx" rule: list.exhaust
        ; simp; case_tac x22; simp)
  have v: "u16_value (host_order ex) [x, y] = cmd_idx"
    using u16_value_bytes [OF assms(1), of "host_order ex"] by (simp add: u)
  show ?thesis
    using assms(2) parse_arguments_encoded [OF assms(3)]
    by (simp add: parse_command_frame_def spec_command_frame_def u v
        sizeof_pr_driver_command_t_def)
qed

lemma find_command_index:
  "find_command cs cmd k = Some (i, ar) \<Longrightarrow> k \<le> i \<and> i < k + length cs"
proof (induction cs arbitrary: k)
  case Nil
  then show ?case
    by simp
next
  case (Cons c cs)
  show ?case
  proof (cases "strncmp_is_0 (sdc_name c) cmd MAX_COMMAND_NAME_LEN")
    case True
    with Cons.prems show ?thesis
      by simp
  next
    case False
    with Cons.prems have "find_command cs cmd (Suc k) = Some (i, ar)"
      by simp
    from Cons.IH [OF this] show ?thesis
      by simp
  qed
qed

text \<open>
  C3: for every valid dispatch (the driver is found, the command is found at catalog
  index \<open>i\<close> and the arguments do not exceed its arity; the catalog has at most
  \<open>2^16\<close> entries, as its \<open>u16\<close> count allows) with arguments of at most 255 bytes
  each, the frame that \<open>cmd_cmd\<close> builds in its buffer and hands to the client is the
  signature byte, \<open>i\<close> as a \<open>u16\<close>, the number of arguments as a \<open>u8\<close> and, for
  each argument, its length byte followed by exactly its bytes; read back, this frame
  gives \<open>i\<close> and the arguments.
\<close>

theorem command_frame_roundtrip:
  assumes "clients sh (hash_pearson ex (DRIVER_SLOT_ID drv (strlen drv) slot)) = Some l"
    and "find_driver l drv slot = Some sd"
    and "find_command (sd_commands sd) cmd 0 = Some (i, arity)"
    and "length as \<le> of_char arity"
    and "length (sd_commands sd) \<le> 65536"
    and "list_all (\<lambda>a. length a \<le> 255) as"
  shows "cmd_cmd ex sh drv slot cmd (map (\<lambda>a. \<lparr>afi_arg = a, afi_len = char_of (length a)\<rparr>) as)
           = sh\<lparr>calls := calls sh
                 @ [((sd_name sd, sd_slot sd), Usc_send (spec_command_frame ex i as))]\<rparr>
         \<and> spec_command_frame ex i as =
             PR_DRV_COMMAND ex # u16_bytes (host_order ex) i @ [char_of (length as)]
               @ concat (map (\<lambda>a. char_of (length a) # a) as)
         \<and> parse_command_frame ex (spec_command_frame ex i as) = Some (i, as)"
proof -
  from find_command_index [OF assms(3)] assms(5) have i: "i < 65536"
    by simp
  have "(of_char arity :: nat) < 256"
    by (rule of_char_lt_256)
  with assms(4) have n: "length as \<le> 255"
    by linarith
  have "cmd_cmd ex sh drv slot cmd (map (\<lambda>a. \<lparr>afi_arg = a, afi_len = char_of (length a)\<rparr>) as)
      = sh\<lparr>calls := calls sh
            @ [((sd_name sd, sd_slot sd), Usc_send (spec_command_frame ex i as))]\<rparr>"
    using assms(1-4)
    by (simp add: cmd_cmd_def build_frame_spec [OF assms(6)] unix_socket_client_send_def
        usc_call_def usc_ref_of_def)
  moreover have "parse_command_frame ex (spec_command_frame ex i as) = Some (i, as)"
    using i n assms(6) by (rule parse_command_frame_spec)
  ultimately show ?thesis
    by (simp add: spec_command_frame_def)
qed

lemma strncmp_is_0_same_length:
  "CHR 0x00 \<notin> set b \<Longrightarrow> length a = length b \<Longrightarrow> strncmp_is_0 a b (length b) = (a = b)"
proof (induction b arbitrary: a)
  case Nil
  then show ?case
    by simp
next
  case (Cons y ys)
  then obtain x xs where a: "a = x # xs"
    by (cases a) auto
  with Cons show ?case
    by auto
qed

lemma strncmp_is_0_take:
  "CHR 0x00 \<notin> set a \<Longrightarrow> CHR 0x00 \<notin> set b \<Longrightarrow> strncmp_is_0 a b n = (take n a = take n b)"
proof (induction n arbitrary: a b)
  case 0
  then show ?case
    by simp
next
  case (Suc n)
  show ?case
  proof (cases a)
    case Nil
    with Suc.prems show ?thesis
      by (cases b) auto
  next
    case a: (Cons x xs)
    show ?thesis
    proof (cases b)
      case Nil
      with a Suc.prems show ?thesis
        by auto
    next
      case (Cons y ys)
      with a Suc.prems Suc.IH [of xs ys] show ?thesis
        by auto
    qed
  qed
qed

theorem command_frame_roundtrip_witness:
  "clients shell_thermo
       (hash_pearson externs_drv (DRIVER_SLOT_ID ''thermo'' (strlen ''thermo'') 3)) = Some [thermo]
   \<and> find_driver [thermo] ''thermo'' 3 = Some thermo
   \<and> find_command (sd_commands thermo) ''set'' 0 = Some (1, CHR 0x01)
   \<and> length [''42''] \<le> of_char (CHR 0x01)
   \<and> length (sd_commands thermo) \<le> 65536
   \<and> list_all (\<lambda>a. length a \<le> 255) [''42'']
   \<and> cmd_cmd externs_drv shell_thermo ''thermo'' 3 ''set''
         [\<lparr>afi_arg = ''42'', afi_len = CHR 0x02\<rparr>]
       = shell_thermo\<lparr>calls := calls shell_thermo @ [((''thermo'', 3),
           Usc_send [CHR 0x00, CHR 0x01, CHR 0x00, CHR 0x01, CHR 0x02, CHR ''4'', CHR ''2''])]\<rparr>
   \<and> parse_command_frame externs_drv
         [CHR 0x00, CHR 0x01, CHR 0x00, CHR 0x01, CHR 0x02, CHR ''4'', CHR ''2'']
       = Some (1, [''42''])"
proof -
  have "DRIVER_SLOT_ID ''thermo'' (strlen ''thermo'') 3 = ''thermo3''"
    by code_simp
  then have h1: "clients shell_thermo
       (hash_pearson externs_drv (DRIVER_SLOT_ID ''thermo'' (strlen ''thermo'') 3)) = Some [thermo]"
    by (simp add: shell_thermo_def externs_drv_def)
  have "strlen ''thermo'' = 6"
    by code_simp
  then have h2: "find_driver [thermo] ''thermo'' 3 = Some thermo"
    by (simp add: thermo_def thermo_fresh_def strncmp_is_0_refl)
  have h3: "find_command (sd_commands thermo) ''set'' 0 = Some (1, CHR 0x01)"
    by (simp add: thermo_def MAX_COMMAND_NAME_LEN_def strncmp_is_0_take)
  have h4: "length [''42''] \<le> of_char (CHR 0x01)"
    by simp
  have h5: "length (sd_commands thermo) \<le> 65536"
    by (simp add: thermo_def)
  have h6: "list_all (\<lambda>a. length a \<le> 255) [''42'']"
    by simp
  have f: "spec_command_frame externs_drv 1 [''42'']
      = [CHR 0x00, CHR 0x01, CHR 0x00, CHR 0x01, CHR 0x02, CHR ''4'', CHR ''2'']"
    by code_simp
  have c: "char_of (length ''42'') = CHR 0x02"
    by code_simp
  have n: "sd_name thermo = ''thermo''" "sd_slot thermo = 3"
    by (simp_all add: thermo_def thermo_fresh_def)
  note r = command_frame_roundtrip [OF h1 h2 h3 h4 h5 h6]
  have a: "cmd_cmd externs_drv shell_thermo ''thermo'' 3 ''set''
         [\<lparr>afi_arg = ''42'', afi_len = CHR 0x02\<rparr>]
       = shell_thermo\<lparr>calls := calls shell_thermo @ [((''thermo'', 3),
           Usc_send [CHR 0x00, CHR 0x01, CHR 0x00, CHR 0x01, CHR 0x02, CHR ''4'', CHR ''2''])]\<rparr>"
    using r [THEN conjunct1] unfolding list.map c f n .
  have b: "parse_command_frame externs_drv
         [CHR 0x00, CHR 0x01, CHR 0x00, CHR 0x01, CHR 0x02, CHR ''4'', CHR ''2'']
       = Some (1, [''42''])"
    using r [THEN conjunct2, THEN conjunct2] unfolding f .
  from h1 h2 h3 h4 h5 h6 a b show ?thesis
    by (intro conjI)
qed

subsection \<open>The command dispatcher\<close>

lemma find_driver_find:
  assumes "CHR 0x00 \<notin> set drv"
  shows "find_driver l drv slot = find (\<lambda>sd. sd_name sd = drv \<and> sd_slot sd = slot) l"
proof (induction l)
  case Nil
  show ?case
    by simp
next
  case (Cons sd l)
  have len: "strlen drv = length drv"
    using assms by (rule strlen_length)
  show ?case
  proof (cases "length (sd_name sd) = length drv")
    case True
    with assms have "strncmp_is_0 (sd_name sd) drv (length drv) = (sd_name sd = drv)"
      by (intro strncmp_is_0_same_length)
    with True Cons show ?thesis
      by (simp add: len)
  next
    case False
    then have "sd_name sd \<noteq> drv"
      by auto
    with False Cons show ?thesis
      by (simp add: len)
  qed
qed

lemma find_command_spec:
  assumes "CHR 0x00 \<notin> set cmd"
    and "list_all (\<lambda>c. CHR 0x00 \<notin> set (sdc_name c)) cs"
  shows "find_command cs cmd k =
     map_option (\<lambda>(i, c). (k + i, sdc_arity c)) (spec_find_command cs cmd)"
  using assms(2)
proof (induction cs arbitrary: k)
  case Nil
  show ?case
    by simp
next
  case (Cons c cs)
  then have "strncmp_is_0 (sdc_name c) cmd 32 = (take 32 (sdc_name c) = take 32 cmd)"
    using assms(1) by (intro strncmp_is_0_take) simp_all
  moreover from Cons have "find_command cs cmd (Suc k) =
     map_option (\<lambda>(i, c). (Suc k + i, sdc_arity c)) (spec_find_command cs cmd)"
    by simp
  ultimately show ?case
    by (simp add: MAX_COMMAND_NAME_LEN_def option.map_comp comp_def split_def)
qed

lemma DRIVER_SLOT_ID_c_string:
  "CHR 0x00 \<notin> set drv \<Longrightarrow> DRIVER_SLOT_ID drv (strlen drv) slot = drv @ dec_of_nat (unat slot)"
  by (simp add: DRIVER_SLOT_ID_def strlen_length c_str_id)

lemma cmd_cmd_spec:
  assumes "CHR 0x00 \<notin> set drv" and "CHR 0x00 \<notin> set cmd"
  shows "spec_lookup ex sh drv slot = None \<Longrightarrow> cmd_cmd ex sh drv slot cmd args = cmd_invalid sh"
    and "spec_lookup ex sh drv slot = Some sd \<Longrightarrow>
         list_all (\<lambda>c. CHR 0x00 \<notin> set (sdc_name c)) (sd_commands sd) \<Longrightarrow>
         cmd_cmd ex sh drv slot cmd args =
           (case spec_find_command (sd_commands sd) cmd of
              None \<Rightarrow> cmd_invalid sh
            | Some (i, c) \<Rightarrow>
                if (of_char (sdc_arity c) :: nat) < length args then cmd_invalid sh
                else sh\<lparr>calls := calls sh
                       @ [((sd_name sd, sd_slot sd), Usc_send (build_frame ex i args))]\<rparr>)"
proof -
  show "cmd_cmd ex sh drv slot cmd args = cmd_invalid sh"
    if "spec_lookup ex sh drv slot = None"
    using that
    by (simp add: cmd_cmd_def spec_lookup_def DRIVER_SLOT_ID_c_string [OF assms(1)]
        find_driver_find [OF assms(1)] split: option.splits)
  show "cmd_cmd ex sh drv slot cmd args =
           (case spec_find_command (sd_commands sd) cmd of
              None \<Rightarrow> cmd_invalid sh
            | Some (i, c) \<Rightarrow>
                if (of_char (sdc_arity c) :: nat) < length args then cmd_invalid sh
                else sh\<lparr>calls := calls sh
                       @ [((sd_name sd, sd_slot sd), Usc_send (build_frame ex i args))]\<rparr>)"
    if "spec_lookup ex sh drv slot = Some sd"
      and "list_all (\<lambda>c. CHR 0x00 \<notin> set (sdc_name c)) (sd_commands sd)"
  proof -
    from that(1) obtain l
      where l: "clients sh (hash_pearson ex (DRIVER_SLOT_ID drv (strlen drv) slot)) = Some l"
        and sd: "find_driver l drv slot = Some sd"
      by (auto simp: spec_lookup_def DRIVER_SLOT_ID_c_string [OF assms(1)]
          find_driver_find [OF assms(1)] split: option.splits)
    note fc = find_command_spec [OF assms(2) that(2), of 0]
    show ?thesis
    proof (cases "spec_find_command (sd_commands sd) cmd")
      case None
      then show ?thesis
        by (simp add: cmd_cmd_def l sd fc)
    next
      case (Some p)
      obtain i c where p: "p = (i, c)"
        by (cases p)
      with Some show ?thesis
        by (simp add: cmd_cmd_def l sd fc unix_socket_client_send_def usc_call_def
            usc_ref_of_def)
    qed
  qed
qed

text \<open>
  C2 (as the code has it): for every \<open>cmd\<close> line
  \<open>cmd <driver> <slot> <command> <arguments>\<close> whose slot token is read completely as a
  number below \<open>2^32\<close> and whose arguments have at most 255 bytes each: if the registry
  has no record for (driver, slot), or the driver's catalog (of C strings) has no
  command of that name, or more arguments are supplied than the arity of the command,
  the shell prints \<open>Invalid command\<close> and the prompt and calls no client, so no byte
  is written to a socket; if the driver and the command exist and the number of
  arguments is at most the arity, nothing is printed and the command frame (the
  signature, the index of the command, the number of arguments and each argument
  behind its length) is handed to the send path of the driver's client. The input
  buffer, in which terminators have been written, is set aside.
\<close>

theorem cmd_line_dispatch:
  assumes "tokens_of (c_str (take (b_offset (input_buffer sh)) (b_data (input_buffer sh))))
      = ''cmd'' # drv # slot # nm # args"
    and "strtoul slot = (v, [])"
    and "v < 4294967296"
    and "list_all (\<lambda>a. length a \<le> 255) args"
  shows "(spec_lookup ex sh drv (word_of_int v) = None \<longrightarrow>
            (run_command_from_input ex order sh)\<lparr>input_buffer := input_buffer sh\<rparr>
              = sh\<lparr>sh_output := sh_output sh @ INVALID_MSG @ PROMPT\<rparr>)
       \<and> (spec_lookup ex sh drv (word_of_int v) = Some sd
            \<and> list_all (\<lambda>c. CHR 0x00 \<notin> set (sdc_name c)) (sd_commands sd)
            \<and> spec_find_command (sd_commands sd) nm = None \<longrightarrow>
            (run_command_from_input ex order sh)\<lparr>input_buffer := input_buffer sh\<rparr>
              = sh\<lparr>sh_output := sh_output sh @ INVALID_MSG @ PROMPT\<rparr>)
       \<and> (spec_lookup ex sh drv (word_of_int v) = Some sd
            \<and> list_all (\<lambda>c. CHR 0x00 \<notin> set (sdc_name c)) (sd_commands sd)
            \<and> spec_find_command (sd_commands sd) nm = Some (i, c)
            \<and> (of_char (sdc_arity c) :: nat) < length args \<longrightarrow>
            (run_command_from_input ex order sh)\<lparr>input_buffer := input_buffer sh\<rparr>
              = sh\<lparr>sh_output := sh_output sh @ INVALID_MSG @ PROMPT\<rparr>)
       \<and> (spec_lookup ex sh drv (word_of_int v) = Some sd
            \<and> list_all (\<lambda>c. CHR 0x00 \<notin> set (sdc_name c)) (sd_commands sd)
            \<and> spec_find_command (sd_commands sd) nm = Some (i, c)
            \<and> length args \<le> of_char (sdc_arity c) \<longrightarrow>
            (run_command_from_input ex order sh)\<lparr>input_buffer := input_buffer sh\<rparr>
              = sh\<lparr>calls := calls sh
                   @ [((sd_name sd, sd_slot sd), Usc_send (spec_command_frame ex i args))]\<rparr>)"
proof -
  let ?line = "c_str (take (b_offset (input_buffer sh)) (b_data (input_buffer sh)))"
  have "CHR 0x00 \<notin> set ?line"
    by (rule c_str_no_NUL)
  then have "\<And>a. a \<in> set (tokens_of ?line) \<Longrightarrow> CHR 0x00 \<notin> set a"
    by (rule tokens_of_no_NUL)
  then have z: "CHR 0x00 \<notin> set drv" "CHR 0x00 \<notin> set nm"
    by (simp_all add: assms(1))
  have r: "(run_command_from_input ex order sh)\<lparr>input_buffer := input_buffer sh\<rparr>
      = cmd_cmd ex sh drv (word_of_int v) nm
          (map (\<lambda>a. \<lparr>afi_arg = a, afi_len = char_of (length a)\<rparr>) args)"
    unfolding run_command_cmd_tokens [OF assms(1)] by (simp add: assms(2,4))
  show ?thesis
    unfolding r
    using cmd_cmd_spec [OF z, of ex sh "word_of_int v"]
    by (auto simp: cmd_invalid_eq build_frame_spec [OF assms(4)])
qed

lemma thermo_fields:
  "sd_name thermo = ''thermo''" "sd_slot thermo = 3"
  "sd_commands thermo = [\<lparr>sdc_name = ''read'', sdc_arity = CHR 0x00, sdc_descr = ''get temperature''\<rparr>,
     \<lparr>sdc_name = ''set'', sdc_arity = CHR 0x01, sdc_descr = ''assign setpoint''\<rparr>]"
  by (simp_all add: thermo_def thermo_fresh_def)

lemma spec_lookup_shell_line:
  "spec_lookup externs_drv (shell_line l) ''thermo'' 3 = Some thermo"
  "spec_lookup externs_drv (shell_line l) ''nope'' 3 = None"
proof -
  have d: "dec_of_nat 3 = ''3''"
    by code_simp
  show "spec_lookup externs_drv (shell_line l) ''thermo'' 3 = Some thermo"
    by (simp add: spec_lookup_def d shell_line_def shell_thermo_def externs_drv_def
        thermo_fields)
  show "spec_lookup externs_drv (shell_line l) ''nope'' 3 = None"
    by (simp add: spec_lookup_def d shell_line_def shell_thermo_def externs_drv_def)
qed

lemma strtoul_3: "strtoul ''3'' = (3, [])"
  by code_simp

theorem cmd_line_dispatch_witness:
  "tokens_of (c_str (take (b_offset (input_buffer (shell_line ''cmd nope 3 set'')))
       (b_data (input_buffer (shell_line ''cmd nope 3 set'')))))
     = [''cmd'', ''nope'', ''3'', ''set'']
   \<and> strtoul ''3'' = (3, [])
   \<and> (3 :: int) < 4294967296
   \<and> list_all (\<lambda>a. length a \<le> 255) []
   \<and> spec_lookup externs_drv (shell_line ''cmd nope 3 set'') ''nope'' 3 = None
   \<and> (run_command_from_input externs_drv [7] (shell_line ''cmd nope 3 set''))
       \<lparr>input_buffer := input_buffer (shell_line ''cmd nope 3 set'')\<rparr>
     = (shell_line ''cmd nope 3 set'')\<lparr>sh_output := sh_output (shell_line ''cmd nope 3 set'') @ INVALID_MSG @ PROMPT\<rparr>
   \<and> tokens_of (c_str (take (b_offset (input_buffer (shell_line ''cmd thermo 3 bogus'')))
       (b_data (input_buffer (shell_line ''cmd thermo 3 bogus'')))))
     = [''cmd'', ''thermo'', ''3'', ''bogus'']
   \<and> spec_lookup externs_drv (shell_line ''cmd thermo 3 bogus'') ''thermo'' 3 = Some thermo
   \<and> list_all (\<lambda>c. CHR 0x00 \<notin> set (sdc_name c)) (sd_commands thermo)
   \<and> spec_find_command (sd_commands thermo) ''bogus'' = None
   \<and> (run_command_from_input externs_drv [7] (shell_line ''cmd thermo 3 bogus''))
       \<lparr>input_buffer := input_buffer (shell_line ''cmd thermo 3 bogus'')\<rparr>
     = (shell_line ''cmd thermo 3 bogus'')\<lparr>sh_output := sh_output (shell_line ''cmd thermo 3 bogus'') @ INVALID_MSG @ PROMPT\<rparr>
   \<and> tokens_of (c_str (take (b_offset (input_buffer (shell_line ''cmd thermo 3 read extra'')))
       (b_data (input_buffer (shell_line ''cmd thermo 3 read extra'')))))
     = [''cmd'', ''thermo'', ''3'', ''read'', ''extra'']
   \<and> list_all (\<lambda>a. length a \<le> 255) [''extra'']
   \<and> spec_lookup externs_drv (shell_line ''cmd thermo 3 read extra'') ''thermo'' 3 = Some thermo
   \<and> spec_find_command (sd_commands thermo) ''read'' = Some (0, \<lparr>sdc_name = ''read'', sdc_arity = CHR 0x00, sdc_descr = ''get temperature''\<rparr>)
   \<and> (of_char (sdc_arity \<lparr>sdc_name = ''read'', sdc_arity = CHR 0x00, sdc_descr = ''get temperature''\<rparr>) :: nat) < length [''extra'']
   \<and> (run_command_from_input externs_drv [7] (shell_line ''cmd thermo 3 read extra''))
       \<lparr>input_buffer := input_buffer (shell_line ''cmd thermo 3 read extra'')\<rparr>
     = (shell_line ''cmd thermo 3 read extra'')\<lparr>sh_output := sh_output (shell_line ''cmd thermo 3 read extra'') @ INVALID_MSG @ PROMPT\<rparr>
   \<and> tokens_of (c_str (take (b_offset (input_buffer (shell_line ''cmd thermo 3 set 42'')))
       (b_data (input_buffer (shell_line ''cmd thermo 3 set 42'')))))
     = [''cmd'', ''thermo'', ''3'', ''set'', ''42'']
   \<and> list_all (\<lambda>a. length a \<le> 255) [''42'']
   \<and> spec_lookup externs_drv (shell_line ''cmd thermo 3 set 42'') ''thermo'' 3 = Some thermo
   \<and> spec_find_command (sd_commands thermo) ''set'' = Some (1, \<lparr>sdc_name = ''set'', sdc_arity = CHR 0x01, sdc_descr = ''assign setpoint''\<rparr>)
   \<and> length [''42''] \<le> of_char (sdc_arity \<lparr>sdc_name = ''set'', sdc_arity = CHR 0x01, sdc_descr = ''assign setpoint''\<rparr>)
   \<and> (run_command_from_input externs_drv [7] (shell_line ''cmd thermo 3 set 42''))
       \<lparr>input_buffer := input_buffer (shell_line ''cmd thermo 3 set 42'')\<rparr>
     = (shell_line ''cmd thermo 3 set 42'')\<lparr>calls := calls (shell_line ''cmd thermo 3 set 42'')
         @ [((''thermo'', 3), Usc_send [CHR 0x00, CHR 0x01, CHR 0x00, CHR 0x01, CHR 0x02, CHR ''4'', CHR ''2''])]\<rparr>"
proof -
  have t0: "tokens_of (c_str (take (b_offset (input_buffer (shell_line ''cmd nope 3 set'')))
       (b_data (input_buffer (shell_line ''cmd nope 3 set'')))))
     = [''cmd'', ''nope'', ''3'', ''set'']"
    using tokens_of_shell_line [of "[''cmd'', ''nope'', ''3'', ''set'']"] by simp
  have t1: "tokens_of (c_str (take (b_offset (input_buffer (shell_line ''cmd thermo 3 bogus'')))
       (b_data (input_buffer (shell_line ''cmd thermo 3 bogus'')))))
     = [''cmd'', ''thermo'', ''3'', ''bogus'']"
    using tokens_of_shell_line [of "[''cmd'', ''thermo'', ''3'', ''bogus'']"] by simp
  have t2: "tokens_of (c_str (take (b_offset (input_buffer (shell_line ''cmd thermo 3 read extra'')))
       (b_data (input_buffer (shell_line ''cmd thermo 3 read extra'')))))
     = [''cmd'', ''thermo'', ''3'', ''read'', ''extra'']"
    using tokens_of_shell_line [of "[''cmd'', ''thermo'', ''3'', ''read'', ''extra'']"] by simp
  have t3: "tokens_of (c_str (take (b_offset (input_buffer (shell_line ''cmd thermo 3 set 42'')))
       (b_data (input_buffer (shell_line ''cmd thermo 3 set 42'')))))
     = [''cmd'', ''thermo'', ''3'', ''set'', ''42'']"
    using tokens_of_shell_line [of "[''cmd'', ''thermo'', ''3'', ''set'', ''42'']"] by simp
  note s = strtoul_3
  have b: "(3 :: int) < 4294967296"
    by simp
  have e0: "list_all (\<lambda>a. length a \<le> 255) []"
    by simp
  have e2: "list_all (\<lambda>a. length a \<le> 255) [''extra'']"
    by simp
  have e3: "list_all (\<lambda>a. length a \<le> 255) [''42'']"
    by simp
  note l0 = spec_lookup_shell_line(2) [of "''cmd nope 3 set''"]
  note l1 = spec_lookup_shell_line(1) [of "''cmd thermo 3 bogus''"]
  note l2 = spec_lookup_shell_line(1) [of "''cmd thermo 3 read extra''"]
  note l3 = spec_lookup_shell_line(1) [of "''cmd thermo 3 set 42''"]
  have c: "list_all (\<lambda>c. CHR 0x00 \<notin> set (sdc_name c)) (sd_commands thermo)"
    by (simp add: thermo_fields)
  have f1: "spec_find_command (sd_commands thermo) ''bogus'' = None"
    by (simp add: thermo_fields)
  have f2: "spec_find_command (sd_commands thermo) ''read'' = Some (0, \<lparr>sdc_name = ''read'', sdc_arity = CHR 0x00, sdc_descr = ''get temperature''\<rparr>)"
    by (simp add: thermo_fields)
  have f3: "spec_find_command (sd_commands thermo) ''set'' = Some (1, \<lparr>sdc_name = ''set'', sdc_arity = CHR 0x01, sdc_descr = ''assign setpoint''\<rparr>)"
    by (simp add: thermo_fields)
  have a2: "(of_char (sdc_arity \<lparr>sdc_name = ''read'', sdc_arity = CHR 0x00, sdc_descr = ''get temperature''\<rparr>) :: nat) < length [''extra'']"
    by simp
  have a3: "length [''42''] \<le> of_char (sdc_arity \<lparr>sdc_name = ''set'', sdc_arity = CHR 0x01, sdc_descr = ''assign setpoint''\<rparr>)"
    by simp
  have "spec_command_frame externs_drv 1 [''42'']
      = [CHR 0x00, CHR 0x01, CHR 0x00, CHR 0x01, CHR 0x02, CHR ''4'', CHR ''2'']"
    by code_simp
  then have fr: "spec_command_frame externs_drv (Suc 0) [''42'']
      = [CHR 0x00, CHR 0x01, CHR 0x00, CHR 0x01, CHR 0x02, CHR ''4'', CHR ''2'']"
    by simp
  have r0: "(run_command_from_input externs_drv [7] (shell_line ''cmd nope 3 set''))
       \<lparr>input_buffer := input_buffer (shell_line ''cmd nope 3 set'')\<rparr>
     = (shell_line ''cmd nope 3 set'')\<lparr>sh_output := sh_output (shell_line ''cmd nope 3 set'') @ INVALID_MSG @ PROMPT\<rparr>"
    using cmd_line_dispatch [OF t0 s b e0, where ex = externs_drv and order = "[7]"] l0
    by simp
  have r1: "(run_command_from_input externs_drv [7] (shell_line ''cmd thermo 3 bogus''))
       \<lparr>input_buffer := input_buffer (shell_line ''cmd thermo 3 bogus'')\<rparr>
     = (shell_line ''cmd thermo 3 bogus'')\<lparr>sh_output := sh_output (shell_line ''cmd thermo 3 bogus'') @ INVALID_MSG @ PROMPT\<rparr>"
    using cmd_line_dispatch [OF t1 s b e0, where ex = externs_drv and order = "[7]"
        and sd = thermo] l1 c f1
    by simp
  have r2: "(run_command_from_input externs_drv [7] (shell_line ''cmd thermo 3 read extra''))
       \<lparr>input_buffer := input_buffer (shell_line ''cmd thermo 3 read extra'')\<rparr>
     = (shell_line ''cmd thermo 3 read extra'')\<lparr>sh_output := sh_output (shell_line ''cmd thermo 3 read extra'') @ INVALID_MSG @ PROMPT\<rparr>"
    using cmd_line_dispatch [OF t2 s b e2, where ex = externs_drv and order = "[7]"
        and sd = thermo and i = 0 and c = "\<lparr>sdc_name = ''read'', sdc_arity = CHR 0x00, sdc_descr = ''get temperature''\<rparr>"] l2 c f2 a2
    by simp
  have r3: "(run_command_from_input externs_drv [7] (shell_line ''cmd thermo 3 set 42''))
       \<lparr>input_buffer := input_buffer (shell_line ''cmd thermo 3 set 42'')\<rparr>
     = (shell_line ''cmd thermo 3 set 42'')\<lparr>calls := calls (shell_line ''cmd thermo 3 set 42'')
         @ [((''thermo'', 3), Usc_send [CHR 0x00, CHR 0x01, CHR 0x00, CHR 0x01, CHR 0x02, CHR ''4'', CHR ''2''])]\<rparr>"
    using cmd_line_dispatch [OF t3 s b e3, where ex = externs_drv and order = "[7]"
        and sd = thermo and i = 1 and c = "\<lparr>sdc_name = ''set'', sdc_arity = CHR 0x01, sdc_descr = ''assign setpoint''\<rparr>"] l3 c f3 a3
    by (simp add: thermo_fields fr)
  from t0 s b e0 l0 r0 t1 l1 c f1 r1 t2 e2 l2 f2 a2 r2 t3 e3 l3 f3 a3 r3 show ?thesis
    by (intro conjI)
qed

theorem long_argument_counterexample:
  "tokens_of (c_str (take (b_offset (input_buffer (shell_line (''cmd thermo 3 set '' @ replicate 256 (CHR ''x'')))))
       (b_data (input_buffer (shell_line (''cmd thermo 3 set '' @ replicate 256 (CHR ''x'')))))))
     = [''cmd'', ''thermo'', ''3'', ''set'', replicate 256 (CHR ''x'')]
   \<and> spec_lookup externs_drv (shell_line (''cmd thermo 3 set '' @ replicate 256 (CHR ''x''))) ''thermo'' 3 = Some thermo
   \<and> spec_find_command (sd_commands thermo) ''set'' = Some (1, \<lparr>sdc_name = ''set'', sdc_arity = CHR 0x01, sdc_descr = ''assign setpoint''\<rparr>)
   \<and> length [replicate 256 (CHR ''x'')] \<le> of_char (sdc_arity \<lparr>sdc_name = ''set'', sdc_arity = CHR 0x01, sdc_descr = ''assign setpoint''\<rparr>)
   \<and> (run_command_from_input externs_drv [7] (shell_line (''cmd thermo 3 set '' @ replicate 256 (CHR ''x''))))
       \<lparr>input_buffer := input_buffer (shell_line (''cmd thermo 3 set '' @ replicate 256 (CHR ''x'')))\<rparr>
     = (shell_line (''cmd thermo 3 set '' @ replicate 256 (CHR ''x'')))\<lparr>sh_output := sh_output (shell_line (''cmd thermo 3 set '' @ replicate 256 (CHR ''x''))) @ INVALID_MSG @ PROMPT\<rparr>"
proof -
  have t: "tokens_of (c_str (take (b_offset (input_buffer (shell_line (''cmd thermo 3 set '' @ replicate 256 (CHR ''x'')))))
       (b_data (input_buffer (shell_line (''cmd thermo 3 set '' @ replicate 256 (CHR ''x'')))))))
     = [''cmd'', ''thermo'', ''3'', ''set'', replicate 256 (CHR ''x'')]"
    using tokens_of_shell_line [of "[''cmd'', ''thermo'', ''3'', ''set'', replicate 256 (CHR ''x'')]"] by simp
  note l = spec_lookup_shell_line(1) [of "''cmd thermo 3 set '' @ replicate 256 (CHR ''x'')"]
  have f: "spec_find_command (sd_commands thermo) ''set'' = Some (1, \<lparr>sdc_name = ''set'', sdc_arity = CHR 0x01, sdc_descr = ''assign setpoint''\<rparr>)"
    by (simp add: thermo_fields)
  have a: "length [replicate 256 (CHR ''x'')] \<le> of_char (sdc_arity \<lparr>sdc_name = ''set'', sdc_arity = CHR 0x01, sdc_descr = ''assign setpoint''\<rparr>)"
    by simp
  have r: "(run_command_from_input externs_drv [7] (shell_line (''cmd thermo 3 set '' @ replicate 256 (CHR ''x''))))
       \<lparr>input_buffer := input_buffer (shell_line (''cmd thermo 3 set '' @ replicate 256 (CHR ''x'')))\<rparr>
     = (shell_line (''cmd thermo 3 set '' @ replicate 256 (CHR ''x'')))\<lparr>sh_output := sh_output (shell_line (''cmd thermo 3 set '' @ replicate 256 (CHR ''x''))) @ INVALID_MSG @ PROMPT\<rparr>"
    unfolding run_command_cmd_tokens [OF t] by (simp add: strtoul_3 cmd_invalid_eq)
  from t l f a r show ?thesis
    by (intro conjI)
qed

text \<open>
  A slot token from \<open>2^32\<close> on is stored in an \<^verbatim>\<open>unsigned int\<close> and keeps its low 32
  bits: the line \<open>cmd thermo 4294967299 read\<close> is sent to the driver at slot 3.
\<close>

lemma strtoul_4294967299: "strtoul ''4294967299'' = (4294967299, [])"
  by (simp add: strtoul_def isspace_def isdigit_def digits_value_def Let_def)

lemma slot_truncated:
  "calls (run_command_from_input externs_drv [7] (shell_line ''cmd thermo 4294967299 read''))
     = [((''thermo'', 3), Usc_send [CHR 0x00, CHR 0x00, CHR 0x00, CHR 0x00])]"
proof -
  let ?sh = "shell_line ''cmd thermo 4294967299 read''"
  let ?run = "run_command_from_input externs_drv [7] ?sh"
  have t: "tokens_of (c_str (take (b_offset (input_buffer ?sh)) (b_data (input_buffer ?sh))))
         = [''cmd'', ''thermo'', ''4294967299'', ''read'']"
    using tokens_of_shell_line [of "[''cmd'', ''thermo'', ''4294967299'', ''read'']"] by simp
  have z: "CHR 0x00 \<notin> set ''thermo''" "CHR 0x00 \<notin> set ''read''"
    by simp_all
  have c: "list_all (\<lambda>c. CHR 0x00 \<notin> set (sdc_name c)) (sd_commands thermo)"
    by (simp add: thermo_fields)
  have w: "(4294967299 :: 32 word) = 3"
    by simp
  have b: "build_frame externs_drv 0 [] = [CHR 0x00, CHR 0x00, CHR 0x00, CHR 0x00]"
    by code_simp
  have "?run\<lparr>input_buffer := input_buffer ?sh\<rparr>
      = cmd_cmd externs_drv ?sh ''thermo'' 3 ''read'' []"
    unfolding run_command_cmd_tokens [OF t] by (simp add: strtoul_4294967299 w)
  also have "\<dots> = ?sh\<lparr>calls := calls ?sh
      @ [((sd_name thermo, sd_slot thermo), Usc_send (build_frame externs_drv 0 []))]\<rparr>"
    unfolding cmd_cmd_spec(2) [OF z spec_lookup_shell_line(1) c] by (simp add: thermo_fields)
  finally have r: "?run\<lparr>input_buffer := input_buffer ?sh\<rparr>
      = ?sh\<lparr>calls := calls ?sh
           @ [((''thermo'', 3), Usc_send [CHR 0x00, CHR 0x00, CHR 0x00, CHR 0x00])]\<rparr>"
    by (simp add: b thermo_fields)
  from arg_cong [OF r, of calls] show ?thesis
    by (simp add: shell_line_def shell_thermo_def shell_init_def)
qed
subsection \<open>The client callbacks\<close>

lemma READ_ERROR_HANDLER_error:
  "error \<noteq> 0 \<Longrightarrow>
   READ_ERROR_HANDLER sd error sh =
     Some (sh\<lparr>calls := calls sh @ [((sd_name sd, sd_slot sd), Usc_reconnect)]\<rparr>)"
  by (simp add: READ_ERROR_HANDLER_def unix_socket_client_reconnect_def usc_call_def
      usc_ref_of_def)

lemma READ_ERROR_HANDLER_eof:
  "eof (sd_usc sd) \<Longrightarrow> READ_ERROR_HANDLER sd 0 sh = Some sh"
  by (simp add: READ_ERROR_HANDLER_def)

lemma READ_ERROR_HANDLER_none:
  "\<not> eof (sd_usc sd) \<Longrightarrow> READ_ERROR_HANDLER sd 0 sh = None"
  by (simp add: READ_ERROR_HANDLER_def)

lemma reader_response_complete:
  assumes "\<not> eof (sd_usc sd)"
    and "b_data (read_task_b (sd_usc sd)) = s # hdr @ p"
    and "length hdr = 4"
    and "u32_value (host_order ex) hdr = int (length p)"
    and "length p < 2147483648"
  shows "reader_response ex sd 0 sh =
     Some (sd, sh\<lparr>sh_output := sh_output sh @ c_str p @ NEW_LINE @ PROMPT\<rparr>)"
proof -
  have "take 4 (drop 1 (s # hdr @ p)) = hdr"
    using assms(3) by simp
  moreover have "drop 5 (s # hdr @ p) = p"
    using assms(3) by simp
  moreover have "length (s # hdr @ p) = 5 + length p"
    using assms(3) by simp
  ultimately show ?thesis
    using assms(4,5)
    by (simp add: reader_response_def READ_ERROR_HANDLER_none [OF assms(1)] assms(2) Let_def
        sizeof_pr_driver_response_t_def printf_precision_s_def finish_cmd_def fprintf_def)
qed

text \<open>
  C6 (as the code has it): a read that completes with an error makes each of the three
  readers call \<open>unix_socket_client_reconnect\<close> and return, and so does a signature
  byte that is neither \<open>DRV_INFO\<close> nor \<open>DRV_RESPONSE\<close>. A read that completes with EOF
  from the peer and no error makes the reader return at once: no reconnect is
  attempted and nothing changes.
\<close>

theorem read_completion_reconnect:
  "(error \<noteq> 0 \<longrightarrow>
      reader_signature ex sd error sh =
        Some (sd, sh\<lparr>calls := calls sh @ [((sd_name sd, sd_slot sd), Usc_reconnect)]\<rparr>)
      \<and> reader_info ex sd error sh =
        Some (sd, sh\<lparr>calls := calls sh @ [((sd_name sd, sd_slot sd), Usc_reconnect)]\<rparr>)
      \<and> reader_response ex sd error sh =
        Some (sd, sh\<lparr>calls := calls sh @ [((sd_name sd, sd_slot sd), Usc_reconnect)]\<rparr>))
   \<and> (eof (sd_usc sd) \<longrightarrow>
      reader_signature ex sd 0 sh = Some (sd, sh)
      \<and> reader_info ex sd 0 sh = Some (sd, sh)
      \<and> reader_response ex sd 0 sh = Some (sd, sh))
   \<and> (\<not> eof (sd_usc sd) \<and> b_data (read_task_b (sd_usc sd)) = s # rest
        \<and> s \<noteq> PR_DRV_INFO ex \<and> s \<noteq> PR_DRV_RESPONSE ex \<longrightarrow>
      reader_signature ex sd 0 sh =
        Some (set_read_offset sd 1,
              sh\<lparr>calls := calls sh @ [((sd_name sd, sd_slot sd), Usc_reconnect)]\<rparr>))"
  by (simp add: reader_signature_def reader_info_def reader_response_def
      READ_ERROR_HANDLER_error READ_ERROR_HANDLER_eof READ_ERROR_HANDLER_none
      sizeof_pr_signature_t_def unix_socket_client_reconnect_def usc_call_def usc_ref_of_def)

theorem read_completion_reconnect_witness:
  "(5 :: int) \<noteq> 0
   \<and> reader_signature externs_drv thermo 5 shell_thermo =
        Some (thermo, shell_thermo\<lparr>calls := calls shell_thermo @ [((''thermo'', 3), Usc_reconnect)]\<rparr>)
   \<and> reader_info externs_drv thermo 5 shell_thermo =
        Some (thermo, shell_thermo\<lparr>calls := calls shell_thermo @ [((''thermo'', 3), Usc_reconnect)]\<rparr>)
   \<and> reader_response externs_drv thermo 5 shell_thermo =
        Some (thermo, shell_thermo\<lparr>calls := calls shell_thermo @ [((''thermo'', 3), Usc_reconnect)]\<rparr>)
   \<and> eof (sd_usc (thermo_read [] True))
   \<and> reader_signature externs_drv (thermo_read [] True) 0 shell_thermo =
        Some (thermo_read [] True, shell_thermo)
   \<and> reader_info externs_drv (thermo_read [] True) 0 shell_thermo =
        Some (thermo_read [] True, shell_thermo)
   \<and> reader_response externs_drv (thermo_read [] True) 0 shell_thermo =
        Some (thermo_read [] True, shell_thermo)
   \<and> \<not> eof (sd_usc (thermo_read [CHR 0x00] False))
   \<and> b_data (read_task_b (sd_usc (thermo_read [CHR 0x00] False))) = CHR 0x00 # []
   \<and> CHR 0x00 \<noteq> PR_DRV_INFO externs_drv \<and> CHR 0x00 \<noteq> PR_DRV_RESPONSE externs_drv
   \<and> reader_signature externs_drv (thermo_read [CHR 0x00] False) 0 shell_thermo =
        Some (set_read_offset (thermo_read [CHR 0x00] False) 1,
              shell_thermo\<lparr>calls := calls shell_thermo @ [((''thermo'', 3), Usc_reconnect)]\<rparr>)"
proof -
  have n: "sd_name thermo = ''thermo''" "sd_slot thermo = 3"
    "sd_name (thermo_read d e) = ''thermo''" "sd_slot (thermo_read d e) = 3" for d e
    by (simp_all add: thermo_read_def thermo_def thermo_fresh_def)
  have e: "eof (sd_usc (thermo_read [] True))" "\<not> eof (sd_usc (thermo_read [CHR 0x00] False))"
    "b_data (read_task_b (sd_usc (thermo_read [CHR 0x00] False))) = CHR 0x00 # []"
    "CHR 0x00 \<noteq> PR_DRV_INFO externs_drv" "CHR 0x00 \<noteq> PR_DRV_RESPONSE externs_drv"
    by (simp_all add: thermo_read_def externs_drv_def)
  from read_completion_reconnect [where error = 5 and ex = externs_drv and sd = thermo
      and sh = shell_thermo]
    read_completion_reconnect [where ex = externs_drv and sd = "thermo_read [] True"
      and sh = shell_thermo]
    read_completion_reconnect [where ex = externs_drv and sd = "thermo_read [CHR 0x00] False"
      and sh = shell_thermo and s = "CHR 0x00" and rest = "[]"]
    e
  show ?thesis
    by (simp add: n)
qed

theorem eof_no_reconnect_counterexample:
  "eof (sd_usc (thermo_read [] True))
   \<and> reader_signature externs_drv (thermo_read [] True) 0 shell_thermo =
        Some (thermo_read [] True, shell_thermo)
   \<and> reader_info externs_drv (thermo_read [] True) 0 shell_thermo =
        Some (thermo_read [] True, shell_thermo)
   \<and> reader_response externs_drv (thermo_read [] True) 0 shell_thermo =
        Some (thermo_read [] True, shell_thermo)
   \<and> calls shell_thermo = []"
  by (simp add: reader_signature_def reader_info_def reader_response_def
      READ_ERROR_HANDLER_def thermo_read_def shell_thermo_def shell_init_def)

text \<open>
  C7 (as the code has it): for every completely received response frame whose length
  field \<open>L\<close> is below \<open>2^31\<close>, with payload \<open>p\<close> of \<open>L\<close> bytes, the shell writes the
  bytes of \<open>p\<close> in front of its first NUL byte, then a newline, then the prompt; a
  payload without a NUL byte is written verbatim, all \<open>L\<close> bytes of it.
\<close>

theorem response_printed:
  assumes "\<not> eof (sd_usc sd)"
    and "b_data (read_task_b (sd_usc sd)) = s # hdr @ p"
    and "length hdr = 4"
    and "u32_value (host_order ex) hdr = int (length p)"
    and "length p < 2147483648"
  shows "reader_response ex sd 0 sh =
           Some (sd, sh\<lparr>sh_output := sh_output sh @ c_str p @ NEW_LINE @ PROMPT\<rparr>)
         \<and> (CHR 0x00 \<notin> set p \<longrightarrow>
             reader_response ex sd 0 sh =
               Some (sd, sh\<lparr>sh_output := sh_output sh @ p @ NEW_LINE @ PROMPT\<rparr>))"
  using reader_response_complete [OF assms] by (simp add: c_str_id)

theorem response_printed_witness:
  "\<not> eof (sd_usc (thermo_read ([CHR 0x02, CHR 0x02, CHR 0x00, CHR 0x00, CHR 0x00] @ ''ok'') False))
   \<and> b_data (read_task_b (sd_usc
         (thermo_read ([CHR 0x02, CHR 0x02, CHR 0x00, CHR 0x00, CHR 0x00] @ ''ok'') False)))
       = CHR 0x02 # [CHR 0x02, CHR 0x00, CHR 0x00, CHR 0x00] @ ''ok''
   \<and> length [CHR 0x02, CHR 0x00, CHR 0x00, CHR 0x00] = 4
   \<and> u32_value (host_order externs_drv) [CHR 0x02, CHR 0x00, CHR 0x00, CHR 0x00] = int (length ''ok'')
   \<and> length ''ok'' < 2147483648
   \<and> CHR 0x00 \<notin> set ''ok''
   \<and> reader_response externs_drv
         (thermo_read ([CHR 0x02, CHR 0x02, CHR 0x00, CHR 0x00, CHR 0x00] @ ''ok'') False) 0
         shell_thermo
       = Some (thermo_read ([CHR 0x02, CHR 0x02, CHR 0x00, CHR 0x00, CHR 0x00] @ ''ok'') False,
               shell_thermo\<lparr>sh_output := sh_output shell_thermo @ ''ok'' @ NEW_LINE @ PROMPT\<rparr>)"
proof -
  let ?sd = "thermo_read ([CHR 0x02, CHR 0x02, CHR 0x00, CHR 0x00, CHR 0x00] @ ''ok'') False"
  have h1: "\<not> eof (sd_usc ?sd)"
    by (simp add: thermo_read_def)
  have h2: "b_data (read_task_b (sd_usc ?sd))
      = CHR 0x02 # [CHR 0x02, CHR 0x00, CHR 0x00, CHR 0x00] @ ''ok''"
    by (simp add: thermo_read_def)
  have h3: "length [CHR 0x02, CHR 0x00, CHR 0x00, CHR 0x00] = 4"
    by simp
  have h4: "u32_value (host_order externs_drv) [CHR 0x02, CHR 0x00, CHR 0x00, CHR 0x00]
      = int (length ''ok'')"
    by (simp add: u32_value_def externs_drv_def)
  have h5: "length ''ok'' < 2147483648"
    by simp
  have h6: "CHR 0x00 \<notin> set ''ok''"
    by simp
  have "reader_response externs_drv ?sd 0 shell_thermo
       = Some (?sd, shell_thermo\<lparr>sh_output := sh_output shell_thermo @ ''ok'' @ NEW_LINE @ PROMPT\<rparr>)"
    by (rule response_printed [OF h1 h2 h3 h4 h5, of shell_thermo, THEN conjunct2, THEN mp, OF h6])
  with h1 h2 h3 h4 h5 h6 show ?thesis
    by (intro conjI)
qed

theorem response_nul_counterexample:
  "reader_response externs_drv
       (thermo_read ([CHR 0x02, CHR 0x03, CHR 0x00, CHR 0x00, CHR 0x00]
          @ [CHR ''a'', CHR 0x00, CHR ''b'']) False) 0 shell_thermo
     = Some (thermo_read ([CHR 0x02, CHR 0x03, CHR 0x00, CHR 0x00, CHR 0x00]
          @ [CHR ''a'', CHR 0x00, CHR ''b'']) False,
        shell_thermo\<lparr>sh_output := sh_output shell_thermo @ ''a'' @ NEW_LINE @ PROMPT\<rparr>)
   \<and> ''a'' @ NEW_LINE @ PROMPT \<noteq> [CHR ''a'', CHR 0x00, CHR ''b''] @ NEW_LINE @ PROMPT"
proof -
  let ?sd = "thermo_read ([CHR 0x02, CHR 0x03, CHR 0x00, CHR 0x00, CHR 0x00]
      @ [CHR ''a'', CHR 0x00, CHR ''b'']) False"
  have h1: "\<not> eof (sd_usc ?sd)"
    by (simp add: thermo_read_def)
  have h2: "b_data (read_task_b (sd_usc ?sd))
      = CHR 0x02 # [CHR 0x03, CHR 0x00, CHR 0x00, CHR 0x00] @ [CHR ''a'', CHR 0x00, CHR ''b'']"
    by (simp add: thermo_read_def)
  have h4: "u32_value (host_order externs_drv) [CHR 0x03, CHR 0x00, CHR 0x00, CHR 0x00]
      = int (length [CHR ''a'', CHR 0x00, CHR ''b''])"
    by (simp add: u32_value_def externs_drv_def)
  have "reader_response externs_drv ?sd 0 shell_thermo
     = Some (?sd, shell_thermo\<lparr>sh_output := sh_output shell_thermo
          @ c_str [CHR ''a'', CHR 0x00, CHR ''b''] @ NEW_LINE @ PROMPT\<rparr>)"
    using h1 h2 _ h4 by (rule reader_response_complete) simp_all
  moreover have "c_str [CHR ''a'', CHR 0x00, CHR ''b''] = ''a''"
    by (simp add: c_str_def)
  ultimately show ?thesis
    by simp
qed

subsection \<open>The prompt\<close>

lemma writer_sent:
  "writer sd 0 ok sh = (sd', sh') \<Longrightarrow>
   sd_name sd' = sd_name sd \<and> sd_slot sd' = sd_slot sd \<and> eof (sd_usc sd') = eof (sd_usc sd)
   \<and> sh' = sh\<lparr>calls := calls sh @ [((sd_name sd, sd_slot sd), Usc_recv 1 Reader_signature)]\<rparr>"
  by (auto simp: writer_def Let_def unix_socket_client_recv_def usc_call_def usc_ref_of_def
      sizeof_pr_signature_t_def)

lemma writer_failed:
  "error \<noteq> 0 \<Longrightarrow> snd (writer sd error True sh)
     = sh\<lparr>calls := calls sh @ [((sd_name sd, sd_slot sd), Usc_reconnect)],
          sh_output := sh_output sh @ PROMPT\<rparr>"
  "error \<noteq> 0 \<Longrightarrow> snd (writer sd error False sh)
     = sh\<lparr>calls := calls sh @ [((sd_name sd, sd_slot sd), Usc_reconnect)]\<rparr>"
  by (simp_all add: writer_def Let_def unix_socket_client_reconnect_def usc_call_def
      usc_ref_of_def fprintf_def)

text \<open>
  A read that ends with an error or with EOF: whatever the reader, it returns without
  printing.
\<close>

lemma reader_no_output:
  assumes "error \<noteq> 0 \<or> eof (sd_usc sd)"
  shows "map_option (sh_output \<circ> snd) (reader_signature ex sd error sh) = Some (sh_output sh)"
    and "map_option (sh_output \<circ> snd) (reader_info ex sd error sh) = Some (sh_output sh)"
    and "map_option (sh_output \<circ> snd) (reader_response ex sd error sh) = Some (sh_output sh)"
  using assms
  by (auto simp: reader_signature_def reader_info_def reader_response_def
      READ_ERROR_HANDLER_def unix_socket_client_reconnect_def usc_call_def)

lemma reader_signature_error:
  "error \<noteq> 0 \<Longrightarrow>
   map_option (\<lambda>(sd, sh). (sh_output sh, calls sh)) (reader_signature ex sd error sh)
     = Some (sh_output sh, calls sh @ [((sd_name sd, sd_slot sd), Usc_reconnect)])"
  by (simp add: reader_signature_def READ_ERROR_HANDLER_error)

lemma reader_signature_eof:
  "eof (sd_usc sd) \<Longrightarrow>
   map_option (\<lambda>(sd, sh). (sh_output sh, calls sh)) (reader_signature ex sd 0 sh)
     = Some (sh_output sh, calls sh)"
  by (simp add: reader_signature_def READ_ERROR_HANDLER_eof)

text \<open>The line \<open>cmd thermo 3 read\<close> of the scenario is dispatched: it prints nothing.\<close>

lemma dispatch_read:
  "sh_output (run_command_from_input externs_drv [7] (shell_line ''cmd thermo 3 read'')) = []"
  "calls (run_command_from_input externs_drv [7] (shell_line ''cmd thermo 3 read''))
     = [((''thermo'', 3), Usc_send [CHR 0x00, CHR 0x00, CHR 0x00, CHR 0x00])]"
proof -
  let ?sh = "shell_line ''cmd thermo 3 read''"
  let ?run = "run_command_from_input externs_drv [7] ?sh"
  have t: "tokens_of (c_str (take (b_offset (input_buffer ?sh)) (b_data (input_buffer ?sh))))
         = [''cmd'', ''thermo'', ''3'', ''read'']"
    using tokens_of_shell_line [of "[''cmd'', ''thermo'', ''3'', ''read'']"] by simp
  have z: "CHR 0x00 \<notin> set ''thermo''" "CHR 0x00 \<notin> set ''read''"
    by simp_all
  have c: "list_all (\<lambda>c. CHR 0x00 \<notin> set (sdc_name c)) (sd_commands thermo)"
    by (simp add: thermo_fields)
  have b: "build_frame externs_drv 0 [] = [CHR 0x00, CHR 0x00, CHR 0x00, CHR 0x00]"
  proof -
    have "spec_command_frame externs_drv 0 [] = [CHR 0x00, CHR 0x00, CHR 0x00, CHR 0x00]"
      by code_simp
    moreover have "build_frame externs_drv 0
        (map (\<lambda>a. \<lparr>afi_arg = a, afi_len = char_of (length a)\<rparr>) [])
        = spec_command_frame externs_drv 0 []"
      by (rule build_frame_spec) simp
    ultimately show ?thesis
      by simp
  qed
  have e: "sh_output ?sh = []" "calls ?sh = []"
    by (simp_all add: shell_line_def shell_thermo_def shell_init_def)
  have "?run\<lparr>input_buffer := input_buffer ?sh\<rparr> = cmd_cmd externs_drv ?sh ''thermo'' 3 ''read'' []"
    unfolding run_command_cmd_tokens [OF t] by (simp add: strtoul_3)
  also have "\<dots> = ?sh\<lparr>calls := calls ?sh
      @ [((sd_name thermo, sd_slot thermo), Usc_send (build_frame externs_drv 0 []))]\<rparr>"
    unfolding cmd_cmd_spec(2) [OF z spec_lookup_shell_line(1) c] by (simp add: thermo_fields)
  finally have r: "?run\<lparr>input_buffer := input_buffer ?sh\<rparr>
      = ?sh\<lparr>calls := [((''thermo'', 3), Usc_send [CHR 0x00, CHR 0x00, CHR 0x00, CHR 0x00])]\<rparr>"
    by (simp add: b e thermo_fields)
  from arg_cong [OF r, of sh_output] show "sh_output ?run = []"
    by (simp add: e)
  from arg_cong [OF r, of calls] show "calls ?run
     = [((''thermo'', 3), Usc_send [CHR 0x00, CHR 0x00, CHR 0x00, CHR 0x00])]"
    by simp
qed

text \<open>
  C8: every command is meant to end with the prompt, a dispatched \<open>cmd\<close> after the
  response or, when the driver disconnects before it responds, after the reconnect
  attempt; \<^verbatim>\<open>writer\<close> does print the prompt behind a reconnect that succeeds. The
  readers do not: the line \<open>cmd thermo 3 read\<close> is dispatched and sent, the read of
  the signature is armed, and when that read ends with an error (104 is
  \<^verbatim>\<open>ECONNRESET\<close>) the reader calls for the reconnect and returns, when it ends with
  EOF the reader returns at once; nothing has been printed, no prompt ends the
  command. The same holds when the send fails (32 is \<^verbatim>\<open>EPIPE\<close>) and the reconnect
  fails too; with a reconnect that succeeds the prompt is there.
\<close>

theorem prompt_missing_after_disconnect:
  "map_option (\<lambda>(sd, sh). (sh_output sh, calls sh))
     (case writer thermo 0 True (run_command_from_input externs_drv [7] (shell_line ''cmd thermo 3 read'')) of
        (sd, sh) \<Rightarrow> reader_signature externs_drv sd 104 sh)
     = Some ([], [((''thermo'', 3), Usc_send [CHR 0x00, CHR 0x00, CHR 0x00, CHR 0x00]),
                  ((''thermo'', 3), Usc_recv 1 Reader_signature),
                  ((''thermo'', 3), Usc_reconnect)])
   \<and> map_option (\<lambda>(sd, sh). (sh_output sh, calls sh))
     (case writer thermo 0 True (run_command_from_input externs_drv [7] (shell_line ''cmd thermo 3 read'')) of
        (sd, sh) \<Rightarrow>
          reader_signature externs_drv (sd\<lparr>sd_usc := (sd_usc sd)\<lparr>eof := True\<rparr>\<rparr>) 0 sh)
     = Some ([], [((''thermo'', 3), Usc_send [CHR 0x00, CHR 0x00, CHR 0x00, CHR 0x00]),
                  ((''thermo'', 3), Usc_recv 1 Reader_signature)])
   \<and> (case writer thermo 32 False (run_command_from_input externs_drv [7] (shell_line ''cmd thermo 3 read'')) of
      (sd, sh) \<Rightarrow> (sh_output sh, calls sh))
     = ([], [((''thermo'', 3), Usc_send [CHR 0x00, CHR 0x00, CHR 0x00, CHR 0x00]),
             ((''thermo'', 3), Usc_reconnect)])
   \<and> (case writer thermo 32 True (run_command_from_input externs_drv [7] (shell_line ''cmd thermo 3 read'')) of
      (sd, sh) \<Rightarrow> (sh_output sh, calls sh))
     = (PROMPT, [((''thermo'', 3), Usc_send [CHR 0x00, CHR 0x00, CHR 0x00, CHR 0x00]),
                 ((''thermo'', 3), Usc_reconnect)])"
proof -
  let ?run = "run_command_from_input externs_drv [7] (shell_line ''cmd thermo 3 read'')"
  note d = dispatch_read
  obtain sd sh where w: "writer thermo 0 True ?run = (sd, sh)"
    by (cases "writer thermo 0 True ?run")
  from writer_sent [OF w]
  have n: "sd_name sd = ''thermo''" "sd_slot sd = 3"
    and o: "sh_output sh = []"
    and c: "calls sh = [((''thermo'', 3), Usc_send [CHR 0x00, CHR 0x00, CHR 0x00, CHR 0x00]),
        ((''thermo'', 3), Usc_recv 1 Reader_signature)]"
    by (simp_all add: thermo_fields d)
  have 1: "map_option (\<lambda>(sd, sh). (sh_output sh, calls sh))
     (case writer thermo 0 True (run_command_from_input externs_drv [7] (shell_line ''cmd thermo 3 read'')) of
        (sd, sh) \<Rightarrow> reader_signature externs_drv sd 104 sh)
     = Some ([], [((''thermo'', 3), Usc_send [CHR 0x00, CHR 0x00, CHR 0x00, CHR 0x00]),
                  ((''thermo'', 3), Usc_recv 1 Reader_signature),
                  ((''thermo'', 3), Usc_reconnect)])"
    unfolding w using reader_signature_error [of 104 externs_drv sd sh]
    by (simp add: n o c)
  have 2: "map_option (\<lambda>(sd, sh). (sh_output sh, calls sh))
     (case writer thermo 0 True (run_command_from_input externs_drv [7] (shell_line ''cmd thermo 3 read'')) of
        (sd, sh) \<Rightarrow>
          reader_signature externs_drv (sd\<lparr>sd_usc := (sd_usc sd)\<lparr>eof := True\<rparr>\<rparr>) 0 sh)
     = Some ([], [((''thermo'', 3), Usc_send [CHR 0x00, CHR 0x00, CHR 0x00, CHR 0x00]),
                  ((''thermo'', 3), Usc_recv 1 Reader_signature)])"
    unfolding w
    using reader_signature_eof [of "sd\<lparr>sd_usc := (sd_usc sd)\<lparr>eof := True\<rparr>\<rparr>" externs_drv sh]
    by (simp add: o c)
  have 3: "(case writer thermo 32 False (run_command_from_input externs_drv [7] (shell_line ''cmd thermo 3 read'')) of
      (sd, sh) \<Rightarrow> (sh_output sh, calls sh))
     = ([], [((''thermo'', 3), Usc_send [CHR 0x00, CHR 0x00, CHR 0x00, CHR 0x00]),
             ((''thermo'', 3), Usc_reconnect)])"
    using writer_failed(2) [of 32 thermo ?run]
    by (simp add: split_beta thermo_fields d)
  have 4: "(case writer thermo 32 True (run_command_from_input externs_drv [7] (shell_line ''cmd thermo 3 read'')) of
      (sd, sh) \<Rightarrow> (sh_output sh, calls sh))
     = (PROMPT, [((''thermo'', 3), Usc_send [CHR 0x00, CHR 0x00, CHR 0x00, CHR 0x00]),
                 ((''thermo'', 3), Usc_reconnect)])"
    using writer_failed(1) [of 32 thermo ?run]
    by (simp add: split_beta thermo_fields d)
  from 1 2 3 4 show ?thesis
    by (intro conjI)
qed
end
